theory Spec2Isabelle
  imports Complex_Main "HOL-Library.AList" "HOL-Library.Log_Nat"
begin

section \<open>Floating-point values\<close>

text \<open>
  The dashboard computes on 64-bit floats held in pandas columns. A float is modelled as
  either a finite real number or one of the three special values of IEEE arithmetic,
  which pandas uses for "undefined" (NaN) and for the result of dividing by zero
  (plus and minus infinity). The operations of this section are exact on finite numbers;
  rounding enters in the section on rounding below. The sign of zero is not modelled.
\<close>

datatype fnum = NaN | NInf | Fin real | PInf

fun is_fin :: "fnum \<Rightarrow> bool" where
  "is_fin (Fin x) = True"
| "is_fin _ = False"

fun fin_val :: "fnum \<Rightarrow> real" where
  "fin_val (Fin x) = x"
| "fin_val _ = 0"

text \<open>\<^verbatim>\<open>pd.notna(x)\<close>: only NaN is missing; an infinity is a value.\<close>

definition notna :: "fnum \<Rightarrow> bool" where
  "notna x = (x \<noteq> NaN)"

fun fneg :: "fnum \<Rightarrow> fnum" where
  "fneg NaN = NaN"
| "fneg NInf = PInf"
| "fneg (Fin x) = Fin (- x)"
| "fneg PInf = NInf"

fun fadd :: "fnum \<Rightarrow> fnum \<Rightarrow> fnum" where
  "fadd (Fin a) (Fin b) = Fin (a + b)"
| "fadd NaN y = NaN"
| "fadd x NaN = NaN"
| "fadd PInf NInf = NaN"
| "fadd NInf PInf = NaN"
| "fadd PInf y = PInf"
| "fadd x PInf = PInf"
| "fadd NInf y = NInf"
| "fadd x NInf = NInf"

definition fsub :: "fnum \<Rightarrow> fnum \<Rightarrow> fnum" where
  "fsub x y = fadd x (fneg y)"

text \<open>The infinity with the given sign.\<close>

definition signed_inf :: "bool \<Rightarrow> fnum" where
  "signed_inf positive = (if positive then PInf else NInf)"

fun fmul :: "fnum \<Rightarrow> fnum \<Rightarrow> fnum" where
  "fmul (Fin a) (Fin b) = Fin (a * b)"
| "fmul NaN y = NaN"
| "fmul x NaN = NaN"
| "fmul (Fin a) y = (if a = 0 then NaN else signed_inf ((0 < a) = (y = PInf)))"
| "fmul x (Fin b) = (if b = 0 then NaN else signed_inf ((0 < b) = (x = PInf)))"
| "fmul x y = signed_inf (x = y)"

text \<open>
  Division of floats never raises: a non-zero number over zero is an infinity, zero over
  zero and infinity over infinity are NaN, a finite number over an infinity is zero.
\<close>

fun fdiv :: "fnum \<Rightarrow> fnum \<Rightarrow> fnum" where
  "fdiv (Fin a) (Fin b) =
     (if b \<noteq> 0 then Fin (a / b) else if a = 0 then NaN else signed_inf (0 < a))"
| "fdiv NaN y = NaN"
| "fdiv x NaN = NaN"
| "fdiv (Fin a) y = Fin 0"
| "fdiv x (Fin b) = signed_inf ((0 \<le> b) = (x = PInf))"
| "fdiv x y = NaN"

text \<open>Comparison: every comparison with NaN is false.\<close>

fun flt :: "fnum \<Rightarrow> fnum \<Rightarrow> bool" where
  "flt (Fin a) (Fin b) = (a < b)"
| "flt NaN y = False"
| "flt x NaN = False"
| "flt x NInf = False"
| "flt PInf y = False"
| "flt NInf y = True"
| "flt x PInf = True"

definition fgt :: "fnum \<Rightarrow> fnum \<Rightarrow> bool" where
  "fgt x y = flt y x"

text \<open>\<^verbatim>\<open>np.sign\<close>: the sign of a number as \<open>-1\<close>, \<open>0\<close> or \<open>1\<close>; NaN stays NaN.\<close>

fun fsign :: "fnum \<Rightarrow> fnum" where
  "fsign NaN = NaN"
| "fsign NInf = Fin (- 1)"
| "fsign (Fin x) = Fin (sgn x)"
| "fsign PInf = Fin 1"

section \<open>Series operations of pandas\<close>

text \<open>
  A column is a list in row order. The operations below follow the documented behaviour
  of the pandas calls the dashboard makes, with their default arguments.
\<close>

text \<open>\<^verbatim>\<open>s.fillna(v)\<close> and \<^verbatim>\<open>s.clip(lo, hi)\<close> on one entry; clipping leaves NaN alone.\<close>

definition fillna :: "real \<Rightarrow> fnum \<Rightarrow> fnum" where
  "fillna v x = (if x = NaN then Fin v else x)"

fun clip :: "real \<Rightarrow> real \<Rightarrow> fnum \<Rightarrow> fnum" where
  "clip lo hi NaN = NaN"
| "clip lo hi NInf = Fin lo"
| "clip lo hi (Fin x) = Fin (if x < lo then lo else if hi < x then hi else x)"
| "clip lo hi PInf = Fin hi"

text \<open>\<^verbatim>\<open>s.diff()\<close>: the difference to the previous entry; the first entry is NaN.\<close>

fun diff :: "real list \<Rightarrow> fnum list" where
  "diff [] = []"
| "diff (x # xs) = NaN # map2 (\<lambda>prev cur. Fin (cur - prev)) (x # xs) xs"

text \<open>\<^verbatim>\<open>s.where(cond, other)\<close>: keep the entries that satisfy \<open>cond\<close>, replace the others.\<close>

definition series_where :: "(fnum \<Rightarrow> bool) \<Rightarrow> fnum \<Rightarrow> fnum list \<Rightarrow> fnum list" where
  "series_where cond other xs = map (\<lambda>x. if cond x then x else other) xs"

text \<open>
  \<^verbatim>\<open>s.rolling(window=w)\<close>: the window of bar \<open>t\<close> holds the \<open>w\<close> entries ending at \<open>t\<close>.
  With the default \<open>min_periods = w\<close> the result is NaN until \<open>w\<close> entries are there, and
  NaN whenever an entry of the window is not a finite number (rolling treats an infinity
  as missing).
\<close>

definition window :: "nat \<Rightarrow> nat \<Rightarrow> 'a list \<Rightarrow> 'a list" where
  "window w t xs = take w (drop (Suc t - w) xs)"

definition rolling :: "nat \<Rightarrow> (real list \<Rightarrow> fnum) \<Rightarrow> fnum list \<Rightarrow> fnum list" where
  "rolling w agg xs =
     map (\<lambda>t. if Suc t < w then NaN
              else if list_all is_fin (window w t xs) then agg (map fin_val (window w t xs))
              else NaN)
       [0..<length xs]"

definition agg_mean :: "real list \<Rightarrow> fnum" where
  "agg_mean ys = Fin (sum_list ys / real (length ys))"

definition agg_min :: "real list \<Rightarrow> fnum" where
  "agg_min ys = Fin (Min (set ys))"

definition agg_max :: "real list \<Rightarrow> fnum" where
  "agg_max ys = Fin (Max (set ys))"

text \<open>The sample standard deviation (\<open>ddof = 1\<close>), undefined on fewer than two entries.\<close>

definition agg_std :: "real list \<Rightarrow> fnum" where
  "agg_std ys =
     (if length ys \<le> 1 then NaN
      else Fin (sqrt ((\<Sum>y\<leftarrow>ys. (y - sum_list ys / real (length ys))\<^sup>2)
                        / real (length ys - 1))))"

text \<open>
  \<^verbatim>\<open>s.ewm(span=n, adjust=False).mean()\<close> on a series without missing entries: a running
  weighted value, started at the first entry, into which each later entry is blended with
  weight \<open>\<alpha> = 2 / (n + 1)\<close> against weight \<open>1 - \<alpha>\<close> for the value so far.
\<close>

fun ewm_loop :: "real \<Rightarrow> real \<Rightarrow> real list \<Rightarrow> real list" where
  "ewm_loop \<alpha> weighted [] = []"
| "ewm_loop \<alpha> weighted (cur # rest) =
     (let weighted' =
            (if weighted \<noteq> cur
             then ((1 - \<alpha>) * weighted + \<alpha> * cur) / ((1 - \<alpha>) + \<alpha>)
             else weighted)
      in weighted' # ewm_loop \<alpha> weighted' rest)"

definition ewm_mean :: "nat \<Rightarrow> real list \<Rightarrow> real list" where
  "ewm_mean n xs =
     (case xs of [] \<Rightarrow> [] | x # rest \<Rightarrow> x # ewm_loop (2 / (real n + 1)) x rest)"

text \<open>
  \<^verbatim>\<open>s.cumsum()\<close>: the running sum; a missing entry stays missing and is left out of
  the sum.
\<close>

fun cumsum_from :: "fnum \<Rightarrow> fnum list \<Rightarrow> fnum list" where
  "cumsum_from acc [] = []"
| "cumsum_from acc (x # xs) =
     (if x = NaN then NaN # cumsum_from acc xs
      else fadd acc x # cumsum_from (fadd acc x) xs)"

definition cumsum :: "fnum list \<Rightarrow> fnum list" where
  "cumsum xs = cumsum_from (Fin 0) xs"

section \<open>The indicator engine\<close>

text \<open>One row of price history, as the data source returns it.\<close>

record bar =
  Date :: int
  Open :: real
  High :: real
  Low :: real
  Close :: real
  Volume :: real

text \<open>\<^verbatim>\<open>calculate_rsi(prices, period=14)\<close>, with its two rolling averages named.\<close>

definition rsi_gain :: "real list \<Rightarrow> nat \<Rightarrow> fnum list" where
  "rsi_gain prices period =
     rolling period agg_mean (series_where (\<lambda>d. fgt d (Fin 0)) (Fin 0) (diff prices))"

definition rsi_loss :: "real list \<Rightarrow> nat \<Rightarrow> fnum list" where
  "rsi_loss prices period =
     rolling period agg_mean
       (map fneg (series_where (\<lambda>d. flt d (Fin 0)) (Fin 0) (diff prices)))"

definition calculate_rsi :: "real list \<Rightarrow> nat \<Rightarrow> fnum list" where
  "calculate_rsi prices period =
     (let gain = rsi_gain prices period;
          loss = rsi_loss prices period;
          rs = map2 fdiv gain loss
      in map (\<lambda>r. fsub (Fin 100) (fdiv (Fin 100) (fadd (Fin 1) r))) rs)"

text \<open>\<^verbatim>\<open>calculate_macd(prices, fast=12, slow=26, signal=9)\<close>.\<close>

definition calculate_macd ::
  "real list \<Rightarrow> nat \<Rightarrow> nat \<Rightarrow> nat \<Rightarrow> real list \<times> real list \<times> real list" where
  "calculate_macd prices fast slow signal =
     (let ema_fast = ewm_mean fast prices;
          ema_slow = ewm_mean slow prices;
          macd_line = map2 (-) ema_fast ema_slow;
          signal_line = ewm_mean signal macd_line;
          histogram = map2 (-) macd_line signal_line
      in (macd_line, signal_line, histogram))"

text \<open>\<^verbatim>\<open>calculate_stochastic(high, low, close, k_period=14, d_period=3)\<close>.\<close>

definition calculate_stochastic ::
  "real list \<Rightarrow> real list \<Rightarrow> real list \<Rightarrow> nat \<Rightarrow> nat \<Rightarrow> fnum list \<times> fnum list" where
  "calculate_stochastic high low close k_period d_period =
     (let lowest_low = rolling k_period agg_min (map Fin low);
          highest_high = rolling k_period agg_max (map Fin high);
          k_percent =
            map (\<lambda>(c, ll, hh). fmul (Fin 100) (fdiv (fsub (Fin c) ll) (fsub hh ll)))
              (zip close (zip lowest_low highest_high));
          d_percent = rolling d_period agg_mean k_percent
      in (k_percent, d_percent))"

text \<open>
  The on-balance volume column:
  \<^verbatim>\<open>(np.sign(df['Close'].diff()) * df['Volume']).fillna(0).cumsum()\<close>.
\<close>

definition obv_column :: "real list \<Rightarrow> real list \<Rightarrow> fnum list" where
  "obv_column close volume =
     cumsum (map (fillna 0) (map2 fmul (map fsign (diff close)) (map Fin volume)))"

text \<open>
  The frame after the indicator columns are added: every row keeps its price fields and
  gains one entry per derived column.
\<close>

record row = bar +
  MA_5 :: fnum
  MA_20 :: fnum
  MA_60 :: fnum
  MA_120 :: fnum
  RSI :: fnum
  MACD :: fnum
  MACD_Signal :: fnum
  MACD_Hist :: fnum
  Stoch_K :: fnum
  Stoch_D :: fnum
  OBV :: fnum

text \<open>\<^verbatim>\<open>df.sort_index()\<close>: the rows in ascending order of their date.\<close>

definition sort_index :: "bar list \<Rightarrow> bar list" where
  "sort_index df = sort_key Date df"

text \<open>\<^verbatim>\<open>df['Close'].rolling(window=w).mean()\<close>.\<close>

definition ma_column :: "nat \<Rightarrow> real list \<Rightarrow> fnum list" where
  "ma_column w close = rolling w agg_mean (map Fin close)"

text \<open>
  The preprocessing of the script: sort the rows, then add the moving averages, RSI, MACD,
  the stochastic oscillator and the on-balance volume, each as a column of the frame.
\<close>

definition add_indicators :: "bar list \<Rightarrow> row list" where
  "add_indicators df0 =
     (let df = sort_index df0;
          close = map Close df;
          (macd_line, signal_line, histogram) = calculate_macd close 12 26 9;
          (k_percent, d_percent) = calculate_stochastic (map High df) (map Low df) close 14 3
      in map (\<lambda>t.
           \<lparr>Date = Date (df ! t), Open = Open (df ! t), High = High (df ! t),
            Low = Low (df ! t), Close = Close (df ! t), Volume = Volume (df ! t),
            MA_5 = ma_column 5 close ! t,
            MA_20 = ma_column 20 close ! t,
            MA_60 = ma_column 60 close ! t,
            MA_120 = ma_column 120 close ! t,
            RSI = calculate_rsi close 14 ! t,
            MACD = Fin (macd_line ! t),
            MACD_Signal = Fin (signal_line ! t),
            MACD_Hist = Fin (histogram ! t),
            Stoch_K = k_percent ! t,
            Stoch_D = d_percent ! t,
            OBV = obv_column close (map Volume df) ! t\<rparr>)
         [0..<length df])"

text \<open>The Bollinger band columns, which the script adds to the frame when it draws them.\<close>

record band_row = row +
  BB_Middle :: fnum
  BB_Std :: fnum
  BB_Upper :: fnum
  BB_Lower :: fnum

definition add_bollinger :: "row list \<Rightarrow> band_row list" where
  "add_bollinger df =
     (let close = map (\<lambda>r. Fin (Close r)) df;
          bb_middle = rolling 20 agg_mean close;
          bb_std = rolling 20 agg_std close
      in map (\<lambda>t.
           \<lparr>Date = Date (df ! t), Open = Open (df ! t), High = High (df ! t),
            Low = Low (df ! t), Close = Close (df ! t), Volume = Volume (df ! t),
            MA_5 = MA_5 (df ! t), MA_20 = MA_20 (df ! t), MA_60 = MA_60 (df ! t),
            MA_120 = MA_120 (df ! t), RSI = RSI (df ! t), MACD = MACD (df ! t),
            MACD_Signal = MACD_Signal (df ! t), MACD_Hist = MACD_Hist (df ! t),
            Stoch_K = Stoch_K (df ! t), Stoch_D = Stoch_D (df ! t), OBV = OBV (df ! t),
            BB_Middle = bb_middle ! t,
            BB_Std = bb_std ! t,
            BB_Upper = fadd (bb_middle ! t) (fmul (bb_std ! t) (Fin 2)),
            BB_Lower = fsub (bb_middle ! t) (fmul (bb_std ! t) (Fin 2))\<rparr>)
         [0..<length df])"

section \<open>Rounding\<close>

text \<open>
  The columns of the frame come out of pandas kernels, whose order of operations is not in
  the source; they are modelled above in exact arithmetic. The arithmetic of the scorer is
  written out in the source, one operation at a time, so it is modelled with a rounding
  function applied to every finite result: \<open>exact\<close> rounds nothing, \<open>binary64\<close> rounds to
  the nearest 64-bit float, ties to the even significand. Overflow and subnormal numbers
  are left out of \<open>binary64\<close>; the scorer's numbers are far from both.
\<close>

definition exact :: "real \<Rightarrow> real" where
  "exact x = x"

definition round_half_even :: "real \<Rightarrow> int" where
  "round_half_even y =
     (let f = \<lfloor>y\<rfloor>; d = y - real_of_int f
      in if d < 1 / 2 then f else if 1 / 2 < d then f + 1 else if even f then f else f + 1)"

text \<open>The exponent \<open>k\<close> of a non-zero number: \<open>2\<^sup>k \<le> \<bar>x\<bar> < 2\<^sup>k\<^sup>+\<^sup>1\<close>.\<close>

definition binade :: "real \<Rightarrow> int" where
  "binade x =
     (let a = \<bar>x\<bar>
      in if 1 \<le> a then bitlen \<lfloor>a\<rfloor> - 1
         else (let j = bitlen \<lfloor>1 / a\<rfloor> - 1
               in if a * 2 ^ nat j = 1 then - j else - j - 1))"

definition scale2 :: "real \<Rightarrow> int \<Rightarrow> real" where
  "scale2 x s = (if 0 \<le> s then x * 2 ^ nat s else x / 2 ^ nat (- s))"

definition binary64 :: "real \<Rightarrow> real" where
  "binary64 x =
     (if x = 0 then 0
      else (let s = 52 - binade x
            in scale2 (real_of_int (round_half_even (scale2 x s))) (- s)))"

text \<open>A rounding function that changes a positive number by at most one part in 1000.\<close>

definition close_rounding :: "(real \<Rightarrow> real) \<Rightarrow> bool" where
  "close_rounding rnd = (\<forall>x. 0 < x \<longrightarrow> 999 / 1000 * x \<le> rnd x \<and> rnd x \<le> 1001 / 1000 * x)"

definition fround :: "(real \<Rightarrow> real) \<Rightarrow> fnum \<Rightarrow> fnum" where
  "fround rnd x = (case x of Fin a \<Rightarrow> Fin (rnd a) | _ \<Rightarrow> x)"

definition radd :: "(real \<Rightarrow> real) \<Rightarrow> fnum \<Rightarrow> fnum \<Rightarrow> fnum" where
  "radd rnd x y = fround rnd (fadd x y)"

definition rsub :: "(real \<Rightarrow> real) \<Rightarrow> fnum \<Rightarrow> fnum \<Rightarrow> fnum" where
  "rsub rnd x y = fround rnd (fsub x y)"

definition rmul :: "(real \<Rightarrow> real) \<Rightarrow> fnum \<Rightarrow> fnum \<Rightarrow> fnum" where
  "rmul rnd x y = fround rnd (fmul x y)"

definition rdiv :: "(real \<Rightarrow> real) \<Rightarrow> fnum \<Rightarrow> fnum \<Rightarrow> fnum" where
  "rdiv rnd x y = fround rnd (fdiv x y)"

section \<open>The signal scorer\<close>

datatype py_error = IndexError

text \<open>
  \<^verbatim>\<open>df.tail(n)\<close>: the last \<open>n\<close> rows; none for \<open>n = 0\<close>; for a negative \<open>n\<close> all rows but
  the first \<open>-n\<close>.
\<close>

definition tail :: "int \<Rightarrow> 'a list \<Rightarrow> 'a list" where
  "tail n xs =
     (if n = 0 then []
      else if 0 < n then drop (length xs - nat n) xs
      else drop (nat (- n)) xs)"

text \<open>Python's \<^verbatim>\<open>min(a, b)\<close> and \<^verbatim>\<open>max(a, b)\<close>: the first argument unless the second beats it.\<close>

definition py_min :: "fnum \<Rightarrow> fnum \<Rightarrow> fnum" where
  "py_min a b = (if flt b a then b else a)"

definition py_max :: "fnum \<Rightarrow> fnum \<Rightarrow> fnum" where
  "py_max a b = (if fgt b a then b else a)"

text \<open>\<^verbatim>\<open>sum(xs)\<close> and \<^verbatim>\<open>np.mean(xs)\<close>, adding from the left.\<close>

definition py_sum :: "(real \<Rightarrow> real) \<Rightarrow> fnum list \<Rightarrow> fnum" where
  "py_sum rnd xs = foldl (radd rnd) (Fin 0) xs"

definition np_mean :: "(real \<Rightarrow> real) \<Rightarrow> fnum list \<Rightarrow> fnum" where
  "np_mean rnd xs = rdiv rnd (foldl (radd rnd) (Fin 0) xs) (Fin (real (length xs)))"

text \<open>\<^verbatim>\<open>s.mean()\<close> of a column of numbers; the mean of no entries is NaN.\<close>

definition series_mean :: "(real \<Rightarrow> real) \<Rightarrow> real list \<Rightarrow> fnum" where
  "series_mean rnd xs = (if xs = [] then NaN else np_mean rnd (map Fin xs))"

text \<open>1. The RSI signal, from the latest RSI.\<close>

definition rsi_signal :: "fnum \<Rightarrow> int" where
  "rsi_signal latest_rsi =
     (if notna latest_rsi then
        (if flt latest_rsi (Fin 30) then 80
         else if flt latest_rsi (Fin 40) then 65
         else if flt latest_rsi (Fin 50) then 55
         else if flt latest_rsi (Fin 60) then 45
         else if flt latest_rsi (Fin 70) then 35
         else 20)
      else 50)"

text \<open>2. The MACD signal, from the latest line, signal line and the last two histogram bars.\<close>

definition macd_signal :: "fnum \<Rightarrow> fnum \<Rightarrow> fnum \<Rightarrow> fnum \<Rightarrow> int" where
  "macd_signal latest_macd latest_signal latest_hist prev_hist =
     (if notna latest_macd \<and> notna latest_signal then
        (if fgt latest_macd latest_signal \<and> fgt latest_hist prev_hist then 75
         else if fgt latest_macd latest_signal then 60
         else if flt latest_macd latest_signal \<and> flt latest_hist prev_hist then 25
         else if flt latest_macd latest_signal then 40
         else 50)
      else 50)"

text \<open>3. The stochastic signal.\<close>

definition stoch_signal :: "fnum \<Rightarrow> fnum \<Rightarrow> int" where
  "stoch_signal latest_stoch_k latest_stoch_d =
     (if notna latest_stoch_k \<and> notna latest_stoch_d then
        (if flt latest_stoch_k (Fin 20) \<and> fgt latest_stoch_k latest_stoch_d then 75
         else if flt latest_stoch_k (Fin 30) then 60
         else if fgt latest_stoch_k (Fin 80) \<and> flt latest_stoch_k latest_stoch_d then 25
         else if fgt latest_stoch_k (Fin 70) then 40
         else 50)
      else 50)"

text \<open>
  4. The moving-average signal. Both columns are always in the frame, so the script's
  test for their presence always succeeds.
\<close>

definition ma_signal :: "fnum \<Rightarrow> fnum \<Rightarrow> fnum \<Rightarrow> int" where
  "ma_signal latest_price ma5 ma20 =
     (if notna ma5 \<and> notna ma20 then
        (if fgt latest_price ma5 \<and> fgt ma5 ma20 then 70
         else if fgt latest_price ma5 then 60
         else if flt latest_price ma5 \<and> flt ma5 ma20 then 30
         else if flt latest_price ma5 then 40
         else 50)
      else 50)"

text \<open>
  5. The on-balance-volume signal, from the change of OBV and of the close between the
  last row and the row \<^verbatim>\<open>iloc[-min(5, len(recent_df)-1)]\<close>.
\<close>

definition obv_signal :: "(real \<Rightarrow> real) \<Rightarrow> row list \<Rightarrow> int" where
  "obv_signal rnd recent_df =
     (if length recent_df > 1 then
        (let back = recent_df ! (length recent_df - min 5 (length recent_df - 1));
             obv_trend = rsub rnd (OBV (last recent_df)) (OBV back);
             price_trend = rsub rnd (Fin (Close (last recent_df))) (Fin (Close back))
         in if fgt obv_trend (Fin 0) \<and> fgt price_trend (Fin 0) then 70
            else if flt obv_trend (Fin 0) \<and> flt price_trend (Fin 0) then 30
            else if fgt obv_trend (Fin 0) \<and> flt price_trend (Fin 0) then 45
            else 55)
      else 50)"

text \<open>The dictionary of signals, filled in the order of the script.\<close>

definition signals_of :: "(real \<Rightarrow> real) \<Rightarrow> row list \<Rightarrow> (string \<times> int) list" where
  "signals_of rnd recent_df =
     (let latest = last recent_df;
          latest_hist = MACD_Hist latest;
          prev_hist =
            (if length recent_df > 1 then MACD_Hist (recent_df ! (length recent_df - 2))
             else latest_hist);
          signals = AList.update ''RSI'' (rsi_signal (RSI latest)) [];
          signals = AList.update ''MACD''
            (macd_signal (MACD latest) (MACD_Signal latest) latest_hist prev_hist) signals;
          signals = AList.update ''Stochastic''
            (stoch_signal (Stoch_K latest) (Stoch_D latest)) signals;
          signals = AList.update ''MA''
            (ma_signal (Fin (Close latest)) (MA_5 latest) (MA_20 latest)) signals;
          signals = AList.update ''OBV'' (obv_signal rnd recent_df) signals
      in signals)"

text \<open>
  The volume weights: the last five volumes of the window over the window's mean volume,
  missing ratios replaced by 1, each clipped to \<open>[0.5, 2]\<close>.
\<close>

definition volume_weights_of :: "(real \<Rightarrow> real) \<Rightarrow> row list \<Rightarrow> fnum list" where
  "volume_weights_of rnd recent_df =
     (let recent_volumes = tail 5 (map Volume recent_df);
          avg_volume = series_mean rnd (map Volume recent_df)
      in map (\<lambda>v. clip 0.5 2.0 (fillna 1.0 (rdiv rnd (Fin v) avg_volume))) recent_volumes)"

definition indicator_weights :: "(string \<times> real) list" where
  "indicator_weights =
     [(''RSI'', 0.25), (''MACD'', 0.25), (''Stochastic'', 0.15), (''MA'', 0.20),
      (''OBV'', 0.15)]"

text \<open>
  One round of the loop over \<open>indicator_weights\<close>; the state is the list
  \<open>weighted_scores\<close> and the running \<open>total_weight\<close>. A base weight is a decimal literal,
  read as the float nearest to it.
\<close>

fun weigh ::
  "(real \<Rightarrow> real) \<Rightarrow> (string \<times> int) list \<Rightarrow> fnum list \<Rightarrow> fnum list \<times> fnum
     \<Rightarrow> string \<times> real \<Rightarrow> fnum list \<times> fnum" where
  "weigh rnd signals volume_weights (weighted_scores, total_weight) (indicator, base_weight) =
     (case map_of signals indicator of
        None \<Rightarrow> (weighted_scores, total_weight)
      | Some score \<Rightarrow>
          (let volume_weight =
                 (if length volume_weights > 0 then np_mean rnd volume_weights else Fin 1.0);
               adjusted_weight = rmul rnd (Fin (rnd base_weight)) volume_weight
           in (weighted_scores @ [rmul rnd (Fin (real_of_int score)) adjusted_weight],
               radd rnd total_weight adjusted_weight)))"

definition final_score_of ::
  "(real \<Rightarrow> real) \<Rightarrow> (string \<times> int) list \<Rightarrow> fnum list \<Rightarrow> fnum" where
  "final_score_of rnd signals volume_weights =
     (let (weighted_scores, total_weight) =
            foldl (weigh rnd signals volume_weights) ([], Fin 0) indicator_weights
      in if fgt total_weight (Fin 0) then rdiv rnd (py_sum rnd weighted_scores) total_weight
         else Fin 50)"

text \<open>The window of the scorer: the last \<open>lookback_period\<close> rows, or all rows if there are fewer.\<close>

definition recent_rows :: "row list \<Rightarrow> int \<Rightarrow> row list" where
  "recent_rows df lookback_period =
     tail (if int (length df) < lookback_period then int (length df) else lookback_period) df"

text \<open>
  \<^verbatim>\<open>calculate_probability(df, lookback_period=20)\<close>. On a window without rows the first
  read, \<^verbatim>\<open>recent_df['RSI'].iloc[-1]\<close>, raises IndexError; every later read is of the
  last row or is guarded by \<^verbatim>\<open>len(recent_df) > 1\<close>.
\<close>

definition calculate_probability ::
  "(real \<Rightarrow> real) \<Rightarrow> row list \<Rightarrow> int \<Rightarrow> py_error + fnum \<times> fnum \<times> (string \<times> int) list" where
  "calculate_probability rnd df lookback_period =
     (let recent_df = recent_rows df lookback_period
      in if recent_df = [] then Inl IndexError
         else
           (let signals = signals_of rnd recent_df;
                final_score = final_score_of rnd signals (volume_weights_of rnd recent_df);
                up_probability = py_max (Fin 0) (py_min (Fin 100) final_score);
                down_probability = rsub rnd (Fin 100) up_probability
            in Inr (up_probability, down_probability, signals)))"

section \<open>The specification's formulas\<close>

text \<open>
  The recurrence the specification gives for an exponential moving average of span \<open>n\<close>:
  \<open>EMA[0] = price[0]\<close> and \<open>EMA[t] = \<alpha> \<sqdot> price[t] + (1 - \<alpha>) \<sqdot> EMA[t - 1]\<close> with
  \<open>\<alpha> = 2 / (n + 1)\<close>.
\<close>

definition ema_recurrence :: "nat \<Rightarrow> real list \<Rightarrow> real list \<Rightarrow> bool" where
  "ema_recurrence n price ema =
     (length ema = length price \<and>
      (price \<noteq> [] \<longrightarrow> ema ! 0 = price ! 0) \<and>
      (\<forall>t. Suc t < length price \<longrightarrow>
         ema ! Suc t = (2 / (real n + 1)) * price ! Suc t + (1 - 2 / (real n + 1)) * ema ! t))"

text \<open>
  The simplified scorer of claim C9: the same window and signals, but the final score is
  the sum of each sub-score times its base weight, with no volume weighting.
\<close>

definition simplified_score :: "(real \<Rightarrow> real) \<Rightarrow> (string \<times> int) list \<Rightarrow> fnum" where
  "simplified_score rnd signals =
     py_sum rnd
       (List.map_filter
          (\<lambda>(indicator, base_weight).
             map_option (\<lambda>score. rmul rnd (Fin (real_of_int score)) (Fin (rnd base_weight)))
               (map_of signals indicator))
          indicator_weights)"

definition simplified_probability ::
  "(real \<Rightarrow> real) \<Rightarrow> row list \<Rightarrow> int \<Rightarrow> py_error + fnum \<times> fnum \<times> (string \<times> int) list" where
  "simplified_probability rnd df lookback_period =
     (let recent_df = recent_rows df lookback_period
      in if recent_df = [] then Inl IndexError
         else
           (let signals = signals_of rnd recent_df;
                final_score = simplified_score rnd signals;
                up_probability = py_max (Fin 0) (py_min (Fin 100) final_score);
                down_probability = rsub rnd (Fin 100) up_probability
            in Inr (up_probability, down_probability, signals)))"

text \<open>A bar that opened, peaked, bottomed and closed at one price, for the examples.\<close>

abbreviation flat_bar :: "int \<Rightarrow> real \<Rightarrow> real \<Rightarrow> bar" where
  "flat_bar d c v \<equiv> \<lparr>Date = d, Open = c, High = c, Low = c, Close = c, Volume = v\<rparr>"

text \<open>A row of the frame whose indicators are all undefined.\<close>

abbreviation undefined_row :: "int \<Rightarrow> real \<Rightarrow> real \<Rightarrow> row" where
  "undefined_row d c v \<equiv>
     \<lparr>Date = d, Open = c, High = c, Low = c, Close = c, Volume = v,
      MA_5 = NaN, MA_20 = NaN, MA_60 = NaN, MA_120 = NaN, RSI = NaN, MACD = NaN,
      MACD_Signal = NaN, MACD_Hist = NaN, Stoch_K = NaN, Stoch_D = NaN, OBV = NaN\<rparr>"

section \<open>Basic facts about the series operations\<close>

lemma fsub_Fin [simp]: "fsub (Fin a) (Fin b) = Fin (a - b)"
  by (simp add: fsub_def)

lemma length_diff [simp]: "length (diff xs) = length xs"
  by (cases xs) simp_all

lemma diff_nth:
  "i < length xs \<Longrightarrow> diff xs ! i = (if i = 0 then NaN else Fin (xs ! i - xs ! (i - 1)))"
  by (cases xs; cases i) simp_all

lemma length_cumsum_from [simp]: "length (cumsum_from acc xs) = length xs"
  by (induction xs arbitrary: acc) simp_all

lemma length_ewm_loop [simp]: "length (ewm_loop \<alpha> w xs) = length xs"
  by (induction xs arbitrary: w) (simp_all add: Let_def)

lemma length_ewm_mean [simp]: "length (ewm_mean n xs) = length xs"
  by (simp add: ewm_mean_def split: list.splits)

lemma sort_index_sorted: "sorted_wrt (<) (map Date df) \<Longrightarrow> sort_index df = df"
  unfolding sort_index_def
  by (rule sort_key_id_if_sorted) (simp add: strict_sorted_imp_sorted)

lemma length_sort_index [simp]: "length (sort_index df) = length df"
  by (simp add: sort_index_def)

lemma length_add_indicators [simp]: "length (add_indicators df) = length df"
  by (simp add: add_indicators_def Let_def case_prod_beta)

section \<open>The exponential moving averages of MACD\<close>

lemma ewm_loop_hd:
  "xs \<noteq> [] \<Longrightarrow> ewm_loop \<alpha> w xs ! 0 = \<alpha> * xs ! 0 + (1 - \<alpha>) * w"
  by (cases xs) (simp_all add: Let_def algebra_simps)

lemma ewm_loop_step:
  "Suc t < length xs \<Longrightarrow>
   ewm_loop \<alpha> w xs ! Suc t = \<alpha> * xs ! Suc t + (1 - \<alpha>) * ewm_loop \<alpha> w xs ! t"
proof (induction xs arbitrary: w t)
  case Nil
  then show ?case by simp
next
  case (Cons x xs)
  let ?w' = "if w \<noteq> x then ((1 - \<alpha>) * w + \<alpha> * x) / ((1 - \<alpha>) + \<alpha>) else w"
  show ?case
  proof (cases t)
    case 0
    with Cons.prems have "xs \<noteq> []" by auto
    from ewm_loop_hd [OF this, of \<alpha> ?w'] 0 show ?thesis by (simp add: Let_def)
  next
    case (Suc k)
    with Cons.prems have "Suc k < length xs" by simp
    from Cons.IH [OF this, of ?w'] Suc show ?thesis by (simp add: Let_def)
  qed
qed

lemma ewm_mean_recurrence: "ema_recurrence n price (ewm_mean n price)"
proof (cases price)
  case Nil
  then show ?thesis by (simp add: ema_recurrence_def ewm_mean_def)
next
  case (Cons x rest)
  have "ewm_mean n price ! Suc t
          = (2 / (real n + 1)) * price ! Suc t + (1 - 2 / (real n + 1)) * ewm_mean n price ! t"
    if "Suc t < length price" for t
  proof (cases t)
    case 0
    with that Cons have "rest \<noteq> []" by auto
    from ewm_loop_hd [OF this] 0 Cons show ?thesis by (simp add: ewm_mean_def)
  next
    case (Suc k)
    with that Cons have "Suc k < length rest" by simp
    from ewm_loop_step [OF this] Suc Cons show ?thesis by (simp add: ewm_mean_def)
  qed
  with Cons show ?thesis by (simp add: ema_recurrence_def ewm_mean_def)
qed

text \<open>
  Claim C6. The two averages of the close that \<open>calculate_macd\<close> subtracts, and the
  average of the MACD line that is its signal line, each start at the first entry of their
  input and then follow \<open>EMA[t] = \<alpha> \<sqdot> price[t] + (1 - \<alpha>) \<sqdot> EMA[t - 1]\<close> with
  \<open>\<alpha> = 2 / (span + 1)\<close>. For the prices 10, 12, 14, 16, 18 and span 3 the average is
  10, 11, 12.5, 14.25, 16.125.
\<close>

theorem macd_emas_follow_recurrence:
  "(case calculate_macd prices fast slow signal of (macd_line, signal_line, histogram) \<Rightarrow>
      ema_recurrence fast prices (ewm_mean fast prices) \<and>
      ema_recurrence slow prices (ewm_mean slow prices) \<and>
      macd_line = map2 (-) (ewm_mean fast prices) (ewm_mean slow prices) \<and>
      ema_recurrence signal macd_line signal_line \<and>
      histogram = map2 (-) macd_line signal_line) \<and>
   ewm_mean 3 [10, 12, 14, 16, 18] = [10, 11, 12.5, 14.25, 16.125]"
proof -
  have "ewm_mean 3 [10, 12, 14, 16, 18] = [10, 11, 12.5, 14.25, 16.125]"
    by (simp add: ewm_mean_def Let_def)
  then show ?thesis
    by (simp add: calculate_macd_def Let_def ewm_mean_recurrence)
qed

theorem macd_emas_follow_recurrence_witness:
  "Suc 0 < length [10, 12 :: real] \<and>
   (case calculate_macd [10, 12] 1 3 1 of (macd_line, signal_line, histogram) \<Rightarrow>
      macd_line = [0, 1] \<and> signal_line ! 0 = macd_line ! 0 \<and>
      signal_line ! Suc 0 = (2 / (real 1 + 1)) * macd_line ! Suc 0
                            + (1 - 2 / (real 1 + 1)) * signal_line ! 0)"
  using macd_emas_follow_recurrence
    [where prices = "[10, 12]" and fast = 1 and slow = 3 and signal = 1]
  by (simp add: ema_recurrence_def calculate_macd_def ewm_mean_def Let_def)

section \<open>On-balance volume\<close>

lemma cumsum_from_Fin_nth:
  "t < length ys \<Longrightarrow>
   cumsum_from (Fin a) (map Fin ys) ! t = Fin (a + sum_list (take (Suc t) ys))"
proof (induction ys arbitrary: a t)
  case Nil
  then show ?case by simp
next
  case (Cons y ys)
  show ?case
  proof (cases t)
    case 0
    then show ?thesis by simp
  next
    case (Suc k)
    with Cons.prems have "k < length ys" by simp
    from Cons.IH [OF this, of "a + y"] Suc show ?thesis by (simp add: add.assoc)
  qed
qed

lemma obv_summands:
  assumes "length volume = length close"
  shows "map (fillna 0) (map2 fmul (map fsign (diff close)) (map Fin volume))
           = map Fin (map (\<lambda>i. if i = 0 then 0
                                else sgn (close ! i - close ! (i - 1)) * volume ! i)
                        [0..<length close])"
    (is "?lhs = ?rhs")
proof (rule nth_equalityI)
  show "length ?lhs = length ?rhs"
    using assms by simp
next
  fix i
  assume "i < length ?lhs"
  then have "i < length close" using assms by simp
  then show "?lhs ! i = ?rhs ! i"
    using assms by (simp add: diff_nth fillna_def)
qed

lemma length_obv_column [simp]:
  "length volume = length close \<Longrightarrow> length (obv_column close volume) = length close"
  by (simp add: obv_column_def cumsum_def)

lemma obv_column_nth:
  assumes "length volume = length close" and "t < length close"
  shows "obv_column close volume ! t
           = Fin (\<Sum>i = 1..t. sgn (close ! i - close ! (i - 1)) * volume ! i)"
proof -
  let ?g = "\<lambda>i. if i = 0 then 0 else sgn (close ! i - close ! (i - 1)) * volume ! i"
  have "obv_column close volume ! t
          = Fin (0 + sum_list (take (Suc t) (map ?g [0..<length close])))"
    using assms unfolding obv_column_def cumsum_def obv_summands [OF assms(1)]
    by (intro cumsum_from_Fin_nth) simp
  also have "take (Suc t) (map ?g [0..<length close]) = map ?g [0..<Suc t]"
    using assms(2) by (simp add: take_map take_upt del: upt_Suc)
  also have "sum_list (map ?g [0..<Suc t]) = (\<Sum>i = 0..t. ?g i)"
    by (simp add: interv_sum_list_conv_sum_set_nat atLeastLessThanSuc_atLeastAtMost
          del: upt_Suc)
  also have "\<dots> = (\<Sum>i = 1..t. ?g i)"
    by (simp add: sum.atLeast_Suc_atMost)
  also have "\<dots> = (\<Sum>i = 1..t. sgn (close ! i - close ! (i - 1)) * volume ! i)"
    by (rule sum.cong) simp_all
  finally show ?thesis by simp
qed

lemma OBV_add_indicators:
  "t < length df \<Longrightarrow>
   OBV (add_indicators df ! t)
     = obv_column (map Close (sort_index df)) (map Volume (sort_index df)) ! t"
  by (simp add: add_indicators_def Let_def case_prod_beta)

text \<open>
  Claim C7. On a frame in date order the OBV entry of bar \<open>t\<close> is the sum, over the bars
  \<open>1, \<dots>, t\<close>, of the bar's volume signed by the direction of its close against the close
  before; the first bar adds nothing. For the closes 100, 102, 101, 105, each with volume
  1000, the column is 0, 1000, 0, 1000.
\<close>

theorem obv_is_cumulative_signed_volume:
  assumes "sorted_wrt (<) (map Date df)" and "t < length df"
  shows "OBV (add_indicators df ! t)
           = Fin (\<Sum>i = 1..t. sgn (Close (df ! i) - Close (df ! (i - 1))) * Volume (df ! i))
         \<and> map OBV (add_indicators [flat_bar 0 100 1000, flat_bar 1 102 1000,
                                    flat_bar 2 101 1000, flat_bar 3 105 1000])
             = [Fin 0, Fin 1000, Fin 0, Fin 1000]"
proof -
  have "OBV (add_indicators df ! t) = obv_column (map Close df) (map Volume df) ! t"
    using assms by (simp add: OBV_add_indicators sort_index_sorted)
  also have "\<dots> = Fin (\<Sum>i = 1..t. sgn (map Close df ! i - map Close df ! (i - 1))
                                    * map Volume df ! i)"
    using assms(2) by (intro obv_column_nth) simp_all
  also have "(\<Sum>i = 1..t. sgn (map Close df ! i - map Close df ! (i - 1)) * map Volume df ! i)
               = (\<Sum>i = 1..t. sgn (Close (df ! i) - Close (df ! (i - 1))) * Volume (df ! i))"
  proof (rule sum.cong)
    fix i assume "i \<in> {1..t}"
    then have "i < length df" and "i - 1 < length df" using assms(2) by auto
    then show "sgn (map Close df ! i - map Close df ! (i - 1)) * map Volume df ! i
                 = sgn (Close (df ! i) - Close (df ! (i - 1))) * Volume (df ! i)"
      by (simp only: nth_map)
  qed simp
  finally have general: "OBV (add_indicators df ! t)
      = Fin (\<Sum>i = 1..t. sgn (Close (df ! i) - Close (df ! (i - 1))) * Volume (df ! i))" .
  have "map OBV (add_indicators [flat_bar 0 100 1000, flat_bar 1 102 1000,
                                  flat_bar 2 101 1000, flat_bar 3 105 1000])
          = [Fin 0, Fin 1000, Fin 0, Fin 1000]"
    by (simp add: add_indicators_def Let_def case_prod_beta sort_index_def obv_column_def
          cumsum_def fillna_def upt_rec)
  with general show ?thesis by simp
qed

theorem obv_is_cumulative_signed_volume_witness:
  "sorted_wrt (<) (map Date [flat_bar 0 100 1000, flat_bar 1 102 1000])
   \<and> 1 < length [flat_bar 0 100 1000, flat_bar 1 102 1000]
   \<and> OBV (add_indicators [flat_bar 0 100 1000, flat_bar 1 102 1000] ! 1) = Fin 1000"
  using obv_is_cumulative_signed_volume [of "[flat_bar 0 100 1000, flat_bar 1 102 1000]" 1]
  by simp

section \<open>Rolling windows\<close>

lemma length_rolling [simp]: "length (rolling w agg xs) = length xs"
  by (simp add: rolling_def)

lemma rolling_nth:
  "t < length xs \<Longrightarrow>
   rolling w agg xs ! t =
     (if Suc t < w then NaN
      else if list_all is_fin (window w t xs) then agg (map fin_val (window w t xs))
      else NaN)"
  by (simp add: rolling_def)

lemma window_conv_nth:
  assumes "t < length xs" and "w \<le> Suc t"
  shows "window w t xs = map ((!) xs) [Suc t - w..<Suc t]"
proof (rule nth_equalityI)
  show "length (window w t xs) = length (map ((!) xs) [Suc t - w..<Suc t])"
    using assms by (auto simp: window_def)
next
  fix i
  assume "i < length (window w t xs)"
  then have "i < w" by (simp add: window_def)
  then show "window w t xs ! i = map ((!) xs) [Suc t - w..<Suc t] ! i"
    using assms by (simp add: window_def del: upt_Suc)
qed

lemma window_map: "window w t (map f xs) = map f (window w t xs)"
  by (simp add: window_def take_map drop_map)

lemma rolling_Fin_nth:
  assumes "t < length ys" and "w \<le> Suc t"
  shows "rolling w agg (map Fin ys) ! t = agg (window w t ys)"
proof -
  have "list_all is_fin (map Fin (window w t ys))"
    by (simp add: list_all_iff)
  moreover have "map fin_val (map Fin (window w t ys)) = window w t ys"
    by (simp add: comp_def)
  ultimately show ?thesis
    using assms by (simp add: rolling_nth window_map)
qed


section \<open>RSI of a rising series\<close>

lemma sum_list_pos_real:
  fixes zs :: "real list"
  shows "zs \<noteq> [] \<Longrightarrow> (\<And>z. z \<in> set zs \<Longrightarrow> 0 < z) \<Longrightarrow> 0 < sum_list zs"
proof (induction zs)
  case Nil
  then show ?case by simp
next
  case (Cons z zs)
  show ?case
  proof (cases "zs = []")
    case True
    with Cons.prems show ?thesis by simp
  next
    case False
    with Cons have "0 < sum_list zs" by simp
    moreover from Cons.prems have "0 < z" by simp
    ultimately show ?thesis by simp
  qed
qed

lemma rsi_loss_input_rising:
  assumes "sorted_wrt (<) prices"
  shows "map fneg (series_where (\<lambda>d. flt d (Fin 0)) (Fin 0) (diff prices))
           = map Fin (replicate (length prices) 0)"
proof (rule nth_equalityI)
  fix i
  assume "i < length (map fneg (series_where (\<lambda>d. flt d (Fin 0)) (Fin 0) (diff prices)))"
  then have i: "i < length prices" by (simp add: series_where_def)
  then have "i \<noteq> 0 \<Longrightarrow> prices ! (i - 1) < prices ! i"
    using assms by (simp add: sorted_wrt_nth_less)
  with i show "map fneg (series_where (\<lambda>d. flt d (Fin 0)) (Fin 0) (diff prices)) ! i
                 = map Fin (replicate (length prices) 0) ! i"
    by (auto simp: series_where_def diff_nth)
qed (simp add: series_where_def)

lemma rsi_gain_input_rising:
  assumes "sorted_wrt (<) prices"
  shows "series_where (\<lambda>d. fgt d (Fin 0)) (Fin 0) (diff prices)
           = map Fin (map (\<lambda>i. if i = 0 then 0 else prices ! i - prices ! (i - 1))
                        [0..<length prices])"
proof (rule nth_equalityI)
  fix i
  assume "i < length (series_where (\<lambda>d. fgt d (Fin 0)) (Fin 0) (diff prices))"
  then have i: "i < length prices" by (simp add: series_where_def)
  then have "i \<noteq> 0 \<Longrightarrow> prices ! (i - 1) < prices ! i"
    using assms by (simp add: sorted_wrt_nth_less)
  with i show "series_where (\<lambda>d. fgt d (Fin 0)) (Fin 0) (diff prices) ! i
                 = map Fin (map (\<lambda>i. if i = 0 then 0 else prices ! i - prices ! (i - 1))
                              [0..<length prices]) ! i"
    by (auto simp: series_where_def diff_nth fgt_def)
qed (simp add: series_where_def)

lemma rsi_loss_rising:
  assumes "sorted_wrt (<) prices" and "t < length prices" and "13 \<le> t"
  shows "rsi_loss prices 14 ! t = Fin 0"
proof -
  have "rsi_loss prices 14 ! t = agg_mean (window 14 t (replicate (length prices) 0))"
    unfolding rsi_loss_def rsi_loss_input_rising [OF assms(1)]
    using assms(2,3) by (intro rolling_Fin_nth) simp_all
  also have "window 14 t (replicate (length prices) (0::real))
               = map (\<lambda>i. 0) [Suc t - 14..<Suc t]"
    using assms(2,3) by (simp add: window_conv_nth)
  finally show ?thesis by (simp add: agg_mean_def)
qed

lemma rsi_gain_rising:
  assumes "sorted_wrt (<) prices" and "t < length prices" and "14 \<le> t"
  shows "\<exists>g. 0 < g \<and> rsi_gain prices 14 ! t = Fin g"
proof -
  let ?g = "\<lambda>i. if i = 0 then 0 else prices ! i - prices ! (i - 1)"
  let ?win = "map ?g [Suc t - 14..<Suc t]"
  have "rsi_gain prices 14 ! t = agg_mean (window 14 t (map ?g [0..<length prices]))"
    unfolding rsi_gain_def rsi_gain_input_rising [OF assms(1)]
    using assms(2,3) by (intro rolling_Fin_nth) simp_all
  also have "window 14 t (map ?g [0..<length prices]) = ?win"
    using assms(2,3) by (simp add: window_conv_nth del: upt_Suc)
  finally have gain: "rsi_gain prices 14 ! t = Fin (sum_list ?win / 14)"
    using assms(3) by (simp add: agg_mean_def del: upt_Suc)
  have "0 < z" if "z \<in> set ?win" for z
  proof -
    from that assms(3) obtain i where i: "Suc t - 14 \<le> i" "i < Suc t" and z: "z = ?g i"
      by (auto simp del: upt_Suc)
    with assms(2,3) have "i \<noteq> 0" and "i < length prices" by auto
    then have "prices ! (i - 1) < prices ! i"
      using assms(1) by (simp add: sorted_wrt_nth_less)
    with z \<open>i \<noteq> 0\<close> show ?thesis by simp
  qed
  moreover have "?win \<noteq> []" by simp
  ultimately have "0 < sum_list ?win" by (intro sum_list_pos_real)
  then have "0 < sum_list ?win / 14" by (rule divide_pos_pos) simp
  with gain show ?thesis by blast
qed

text \<open>
  Claim C5. On a close series that rises from every bar to the next and has at least 15
  bars, the 14-bar average loss at the last bar is zero and the RSI there is 100, not NaN:
  the gain is positive, so gain over loss is plus infinity, and \<open>100 - 100 / (1 + \<infinity>)\<close> is
  100.
\<close>

theorem rsi_of_rising_series_is_100:
  assumes "sorted_wrt (<) prices" and "15 \<le> length prices"
  shows "rsi_loss prices 14 ! (length prices - 1) = Fin 0
         \<and> calculate_rsi prices 14 ! (length prices - 1) = Fin 100
         \<and> notna (calculate_rsi prices 14 ! (length prices - 1))"
proof -
  let ?t = "length prices - 1"
  have t: "?t < length prices" "14 \<le> ?t" "13 \<le> ?t" using assms(2) by simp_all
  have loss: "rsi_loss prices 14 ! ?t = Fin 0"
    using assms(1) t(1,3) by (rule rsi_loss_rising)
  from rsi_gain_rising [OF assms(1) t(1,2)]
  obtain g where g: "0 < g" "rsi_gain prices 14 ! ?t = Fin g" by blast
  have "calculate_rsi prices 14 ! ?t
          = fsub (Fin 100) (fdiv (Fin 100) (fadd (Fin 1)
              (fdiv (rsi_gain prices 14 ! ?t) (rsi_loss prices 14 ! ?t))))"
    using t(1) by (simp add: calculate_rsi_def Let_def rsi_gain_def rsi_loss_def series_where_def)
  also have "\<dots> = Fin 100"
    using g loss by (simp add: signed_inf_def)
  finally show ?thesis using loss by (simp add: notna_def)
qed

theorem rsi_of_rising_series_is_100_witness:
  "sorted_wrt (<) (map real [1..<16]) \<and> 15 \<le> length (map real [1..<16])
   \<and> calculate_rsi (map real [1..<16]) 14 ! 14 = Fin 100"
  using rsi_of_rising_series_is_100 [of "map real [1..<16]"]
  by (simp add: sorted_wrt_map sorted_wrt_upt)

section \<open>The stochastic oscillator on a zero range\<close>

lemma window_last_mem:
  assumes "t < length xs" and "0 < w" and "w \<le> Suc t"
  shows "xs ! t \<in> set (window w t xs)"
proof -
  have "t \<in> set [Suc t - w..<Suc t]" using assms by auto
  then show ?thesis
    unfolding window_conv_nth [OF assms(1,3)] by (simp del: upt_Suc)
qed

lemma rolling_not_fin:
  assumes "t < length xs" and "0 < w" and "\<not> is_fin (xs ! t)"
  shows "rolling w agg xs ! t = NaN"
proof (cases "Suc t < w")
  case True
  with assms(1) show ?thesis by (simp add: rolling_nth)
next
  case False
  with assms have "xs ! t \<in> set (window w t xs)" by (intro window_last_mem) simp_all
  with assms(3) have "\<not> list_all is_fin (window w t xs)" by (auto simp: list_all_iff)
  with assms(1) show ?thesis by (simp add: rolling_nth)
qed

lemma stochastic_nth:
  assumes "length high = length close" and "length low = length close" and "t < length close"
  shows "fst (calculate_stochastic high low close k_period d_period) ! t
           = fmul (Fin 100)
               (fdiv (fsub (Fin (close ! t)) (rolling k_period agg_min (map Fin low) ! t))
                     (fsub (rolling k_period agg_max (map Fin high) ! t)
                           (rolling k_period agg_min (map Fin low) ! t)))"
  using assms by (simp add: calculate_stochastic_def Let_def)

lemma length_stochastic:
  assumes "length high = length close" and "length low = length close"
  shows "length (fst (calculate_stochastic high low close k_period d_period)) = length close"
    and "length (snd (calculate_stochastic high low close k_period d_period)) = length close"
  using assms by (simp_all add: calculate_stochastic_def Let_def)

lemma stochastic_k_zero_range:
  assumes "length high = length close" and "length low = length close"
    and "t < length close" and "13 \<le> t"
    and "Max (set (window 14 t high)) = Min (set (window 14 t low))"
  shows "fst (calculate_stochastic high low close 14 3) ! t =
           (if close ! t = Min (set (window 14 t low)) then NaN
            else if Min (set (window 14 t low)) < close ! t then PInf
            else NInf)"
proof -
  let ?m = "Min (set (window 14 t low))"
  have ll: "rolling 14 agg_min (map Fin low) ! t = Fin ?m"
    using assms(2,3,4) by (simp add: rolling_Fin_nth agg_min_def)
  have hh: "rolling 14 agg_max (map Fin high) ! t = Fin ?m"
    using assms(1,3,4,5) by (simp add: rolling_Fin_nth agg_max_def)
  show ?thesis
    unfolding stochastic_nth [OF assms(1,2,3)] ll hh
    by (simp add: signed_inf_def)
qed

text \<open>
  Claim C2, as the code has it. At a bar whose trailing 14-bar highest high equals the
  trailing 14-bar lowest low, \<open>%K\<close> is not 50 and not any number: it is NaN when the close
  is at that level, plus infinity when the close is above it and minus infinity when it is
  below. \<open>%D\<close> is NaN at that bar, and the scorer's stochastic signal for it is the neutral
  50.
\<close>

theorem stochastic_zero_range_undefined:
  assumes "length high = length close" and "length low = length close"
    and "t < length close" and "13 \<le> t"
    and "Max (set (window 14 t high)) = Min (set (window 14 t low))"
  shows "(case calculate_stochastic high low close 14 3 of (k_percent, d_percent) \<Rightarrow>
           k_percent ! t =
             (if close ! t = Min (set (window 14 t low)) then NaN
              else if Min (set (window 14 t low)) < close ! t then PInf
              else NInf)
           \<and> d_percent ! t = NaN
           \<and> stoch_signal (k_percent ! t) (d_percent ! t) = 50)"
proof -
  let ?K = "fst (calculate_stochastic high low close 14 3)"
  let ?D = "snd (calculate_stochastic high low close 14 3)"
  let ?m = "Min (set (window 14 t low))"
  have K: "?K ! t = (if close ! t = ?m then NaN else if ?m < close ! t then PInf else NInf)"
    using assms by (rule stochastic_k_zero_range)
  then have "\<not> is_fin (?K ! t)" by simp
  moreover have "t < length ?K" using assms(1,2,3) by (simp add: length_stochastic)
  ultimately have "rolling 3 agg_mean ?K ! t = NaN" by (intro rolling_not_fin) simp_all
  then have D: "?D ! t = NaN" by (simp add: calculate_stochastic_def Let_def)
  have "stoch_signal (?K ! t) (?D ! t) = 50"
    unfolding D by (simp add: stoch_signal_def notna_def)
  with K D show ?thesis by (simp add: case_prod_beta)
qed

text \<open>Fourteen bars at the price 100: the range is zero and \<open>%K\<close> at the last bar is not 50.\<close>

theorem stochastic_zero_range_counterexample:
  "Max (set (window 14 13 (replicate 14 (100::real))))
     = Min (set (window 14 13 (replicate 14 (100::real))))
   \<and> fst (calculate_stochastic (replicate 14 100) (replicate 14 100) (replicate 14 100) 14 3)
       ! 13 \<noteq> Fin 50"
proof -
  have "fst (calculate_stochastic (replicate 14 100) (replicate 14 100) (replicate 14 100) 14 3)
          ! 13 = NaN"
    by (subst stochastic_k_zero_range) (simp_all add: window_def)
  then show ?thesis by (simp add: window_def)
qed

theorem stochastic_zero_range_undefined_witness:
  "length (replicate 14 (7::real)) = length (replicate 14 (8::real))
   \<and> (13::nat) < length (replicate 14 (8::real)) \<and> (13::nat) \<le> 13
   \<and> Max (set (window 14 13 (replicate 14 (7::real))))
       = Min (set (window 14 13 (replicate 14 (7::real))))
   \<and> (case calculate_stochastic (replicate 14 7) (replicate 14 7) (replicate 14 8) 14 3 of
        (k_percent, d_percent) \<Rightarrow>
          k_percent ! 13 = PInf \<and> d_percent ! 13 = NaN
          \<and> stoch_signal (k_percent ! 13) (d_percent ! 13) = 50)"
  using stochastic_zero_range_undefined
    [of "replicate 14 7" "replicate 14 8" "replicate 14 7" 13]
  by (simp add: window_def)

section \<open>A series of fewer than two bars\<close>

lemma add_indicators_single:
  "add_indicators [b] =
     [\<lparr>Date = Date b, Open = Open b, High = High b, Low = Low b, Close = Close b,
       Volume = Volume b,
       MA_5 = NaN, MA_20 = NaN, MA_60 = NaN, MA_120 = NaN, RSI = NaN,
       MACD = Fin 0, MACD_Signal = Fin 0, MACD_Hist = Fin 0,
       Stoch_K = NaN, Stoch_D = NaN, OBV = Fin 0\<rparr>]"
  by (simp add: add_indicators_def sort_index_def ma_column_def rolling_def calculate_rsi_def
        rsi_gain_def rsi_loss_def series_where_def calculate_macd_def ewm_mean_def
        calculate_stochastic_def obv_column_def cumsum_def fillna_def fsub_def Let_def)

lemma add_bollinger_single:
  "add_bollinger [r] =
     [\<lparr>Date = Date r, Open = Open r, High = High r, Low = Low r, Close = Close r,
       Volume = Volume r,
       MA_5 = MA_5 r, MA_20 = MA_20 r, MA_60 = MA_60 r, MA_120 = MA_120 r, RSI = RSI r,
       MACD = MACD r, MACD_Signal = MACD_Signal r, MACD_Hist = MACD_Hist r,
       Stoch_K = Stoch_K r, Stoch_D = Stoch_D r, OBV = OBV r,
       BB_Middle = NaN, BB_Std = NaN, BB_Upper = NaN, BB_Lower = NaN\<rparr>]"
  by (simp add: add_bollinger_def rolling_def fsub_def Let_def)

text \<open>
  Claim C3, as the code has it. On a price series of fewer than two bars the engine
  returns a frame of the same length (no operation of the engine can raise). In it the
  moving averages, RSI, \<open>%K\<close>, \<open>%D\<close> and the Bollinger bands are undefined at every bar, but
  the MACD line, signal line and histogram and the OBV are defined and equal 0.
\<close>

theorem short_series_frame:
  assumes "length df < 2"
  shows "length (add_bollinger (add_indicators df)) = length df
         \<and> (\<forall>r \<in> set (add_bollinger (add_indicators df)).
               MA_5 r = NaN \<and> MA_20 r = NaN \<and> MA_60 r = NaN \<and> MA_120 r = NaN
               \<and> RSI r = NaN \<and> Stoch_K r = NaN \<and> Stoch_D r = NaN
               \<and> BB_Middle r = NaN \<and> BB_Upper r = NaN \<and> BB_Lower r = NaN
               \<and> MACD r = Fin 0 \<and> MACD_Signal r = Fin 0 \<and> MACD_Hist r = Fin 0
               \<and> OBV r = Fin 0)"
proof (cases df)
  case Nil
  then show ?thesis by (simp add: add_indicators_def add_bollinger_def sort_index_def)
next
  case (Cons b rest)
  with assms have "df = [b]" by simp
  then show ?thesis by (simp add: add_indicators_single add_bollinger_single)
qed

text \<open>One bar: MACD, its signal line, its histogram and OBV are 0, not undefined.\<close>

theorem short_series_frame_counterexample:
  "MACD (add_indicators [flat_bar 0 100 1000] ! 0) = Fin 0
   \<and> MACD_Signal (add_indicators [flat_bar 0 100 1000] ! 0) = Fin 0
   \<and> MACD_Hist (add_indicators [flat_bar 0 100 1000] ! 0) = Fin 0
   \<and> OBV (add_indicators [flat_bar 0 100 1000] ! 0) = Fin 0
   \<and> Fin 0 \<noteq> NaN"
  by (simp add: add_indicators_single)

theorem short_series_frame_witness:
  "length [flat_bar 0 100 1000] < 2
   \<and> length (add_bollinger (add_indicators [flat_bar 0 100 1000])) = 1
   \<and> RSI (add_bollinger (add_indicators [flat_bar 0 100 1000]) ! 0) = NaN
   \<and> OBV (add_bollinger (add_indicators [flat_bar 0 100 1000]) ! 0) = Fin 0"
proof -
  have h: "length [flat_bar 0 100 1000] < 2" by simp
  have m: "add_bollinger (add_indicators [flat_bar 0 100 1000]) ! 0
             \<in> set (add_bollinger (add_indicators [flat_bar 0 100 1000]))"
    by (simp add: add_indicators_single add_bollinger_single)
  from short_series_frame [OF h] m h show ?thesis by auto
qed

section \<open>No look-ahead\<close>

lemma window_take:
  assumes "t < n" and "t < length xs" and "w \<le> Suc t"
  shows "window w t (take n xs) = window w t xs"
proof -
  have "t < length (take n xs)" using assms(1,2) by simp
  then have "window w t (take n xs) = map ((!) (take n xs)) [Suc t - w..<Suc t]"
    using assms(3) by (rule window_conv_nth)
  also have "\<dots> = map ((!) xs) [Suc t - w..<Suc t]"
    using assms(1) by (intro map_cong) (auto simp del: upt_Suc)
  also have "\<dots> = window w t xs"
    using assms(2,3) by (rule window_conv_nth [symmetric])
  finally show ?thesis .
qed

lemma take_rolling: "take n (rolling w agg xs) = rolling w agg (take n xs)"
proof (rule nth_equalityI)
  show "length (take n (rolling w agg xs)) = length (rolling w agg (take n xs))"
    by simp
next
  fix i
  assume "i < length (take n (rolling w agg xs))"
  then have i: "i < n" "i < length xs" by simp_all
  show "take n (rolling w agg xs) ! i = rolling w agg (take n xs) ! i"
  proof (cases "Suc i < w")
    case True
    with i show ?thesis by (simp add: rolling_nth)
  next
    case False
    then have "window w i (take n xs) = window w i xs"
      using i by (intro window_take) simp_all
    with i show ?thesis by (simp add: rolling_nth)
  qed
qed

lemma take_diff: "take n (diff xs) = diff (take n xs)"
proof (rule nth_equalityI)
  show "length (take n (diff xs)) = length (diff (take n xs))" by simp
next
  fix i
  assume "i < length (take n (diff xs))"
  then have "i < n" "i < length xs" by simp_all
  then show "take n (diff xs) ! i = diff (take n xs) ! i"
    by (simp add: diff_nth)
qed

lemma take_series_where:
  "take n (series_where cond other xs) = series_where cond other (take n xs)"
  by (simp add: series_where_def take_map)

lemma take_ewm_loop: "take n (ewm_loop \<alpha> w xs) = ewm_loop \<alpha> w (take n xs)"
proof (induction xs arbitrary: n w)
  case Nil
  then show ?case by simp
next
  case (Cons x xs)
  then show ?case by (cases n) (simp_all add: Let_def)
qed

lemma take_ewm_mean: "take n (ewm_mean k xs) = ewm_mean k (take n xs)"
proof (cases xs)
  case Nil
  then show ?thesis by (simp add: ewm_mean_def)
next
  case (Cons x rest)
  then show ?thesis by (cases n) (simp_all add: ewm_mean_def take_ewm_loop)
qed

lemma take_cumsum_from: "take n (cumsum_from acc xs) = cumsum_from acc (take n xs)"
proof (induction xs arbitrary: n acc)
  case Nil
  then show ?case by simp
next
  case (Cons x xs)
  then show ?case by (cases n) simp_all
qed

lemma take_map2: "take n (map2 f xs ys) = map2 f (take n xs) (take n ys)"
  by (simp add: take_map take_zip)

lemma take_ma_column: "take n (ma_column w close) = ma_column w (take n close)"
  by (simp add: ma_column_def take_rolling take_map)

lemma take_calculate_rsi:
  "take n (calculate_rsi prices period) = calculate_rsi (take n prices) period"
  by (simp add: calculate_rsi_def rsi_gain_def rsi_loss_def Let_def take_map take_zip
        take_rolling take_series_where take_diff)

lemma take_calculate_macd:
  "(case calculate_macd prices fast slow signal of (m, s, h) \<Rightarrow>
      (take n m, take n s, take n h))
   = calculate_macd (take n prices) fast slow signal"
  by (simp add: calculate_macd_def Let_def take_map take_zip take_ewm_mean)

lemma take_calculate_stochastic:
  "(case calculate_stochastic high low close k d of (kp, dp) \<Rightarrow> (take n kp, take n dp))
   = calculate_stochastic (take n high) (take n low) (take n close) k d"
  by (simp add: calculate_stochastic_def Let_def take_map take_zip take_rolling)

lemma take_obv_column:
  "take n (obv_column close volume) = obv_column (take n close) (take n volume)"
  by (simp add: obv_column_def cumsum_def take_cumsum_from take_map take_zip take_diff)

lemma take_macd_parts:
  "take n (fst (calculate_macd prices fast slow signal))
     = fst (calculate_macd (take n prices) fast slow signal)"
  "take n (fst (snd (calculate_macd prices fast slow signal)))
     = fst (snd (calculate_macd (take n prices) fast slow signal))"
  "take n (snd (snd (calculate_macd prices fast slow signal)))
     = snd (snd (calculate_macd (take n prices) fast slow signal))"
  by (simp_all add: calculate_macd_def Let_def take_map take_zip take_ewm_mean)

lemma take_stochastic_parts:
  "take n (fst (calculate_stochastic high low close k d))
     = fst (calculate_stochastic (take n high) (take n low) (take n close) k d)"
  "take n (snd (calculate_stochastic high low close k d))
     = snd (calculate_stochastic (take n high) (take n low) (take n close) k d)"
  by (simp_all add: calculate_stochastic_def Let_def take_map take_zip take_rolling)

lemma length_macd_parts [simp]:
  "length (fst (calculate_macd prices fast slow signal)) = length prices"
  "length (fst (snd (calculate_macd prices fast slow signal))) = length prices"
  "length (snd (snd (calculate_macd prices fast slow signal))) = length prices"
  by (simp_all add: calculate_macd_def Let_def)

text \<open>The row of bar \<open>t\<close>, read off the columns, on a frame in date order.\<close>

lemma add_indicators_nth:
  assumes "sorted_wrt (<) (map Date df)" and "t < length df"
  shows "add_indicators df ! t =
     \<lparr>Date = Date (df ! t), Open = Open (df ! t), High = High (df ! t),
      Low = Low (df ! t), Close = Close (df ! t), Volume = Volume (df ! t),
      MA_5 = ma_column 5 (map Close df) ! t,
      MA_20 = ma_column 20 (map Close df) ! t,
      MA_60 = ma_column 60 (map Close df) ! t,
      MA_120 = ma_column 120 (map Close df) ! t,
      RSI = calculate_rsi (map Close df) 14 ! t,
      MACD = Fin (fst (calculate_macd (map Close df) 12 26 9) ! t),
      MACD_Signal = Fin (fst (snd (calculate_macd (map Close df) 12 26 9)) ! t),
      MACD_Hist = Fin (snd (snd (calculate_macd (map Close df) 12 26 9)) ! t),
      Stoch_K = fst (calculate_stochastic (map High df) (map Low df) (map Close df) 14 3) ! t,
      Stoch_D = snd (calculate_stochastic (map High df) (map Low df) (map Close df) 14 3) ! t,
      OBV = obv_column (map Close df) (map Volume df) ! t\<rparr>"
  using assms by (simp add: add_indicators_def sort_index_sorted Let_def case_prod_beta)

lemma nth_of_take_eq:
  assumes "take n xs = ys" and "t < n"
  shows "xs ! t = ys ! t"
  using assms by (metis nth_take)

lemma take_add_indicators:
  assumes "sorted_wrt (<) (map Date df)"
  shows "take n (add_indicators df) = add_indicators (take n df)"
proof (rule nth_equalityI)
  show "length (take n (add_indicators df)) = length (add_indicators (take n df))" by simp
next
  fix t
  assume "t < length (take n (add_indicators df))"
  then have t: "t < n" "t < length df" by simp_all
  have sorted': "sorted_wrt (<) (map Date (take n df))"
    using assms by (simp add: take_map [symmetric] sorted_wrt_take)
  have t': "t < length (take n df)" using t by simp
  note cols =
    nth_of_take_eq [OF take_ma_column t(1), symmetric]
    nth_of_take_eq [OF take_calculate_rsi t(1), symmetric]
    nth_of_take_eq [OF take_macd_parts(1) t(1), symmetric]
    nth_of_take_eq [OF take_macd_parts(2) t(1), symmetric]
    nth_of_take_eq [OF take_macd_parts(3) t(1), symmetric]
    nth_of_take_eq [OF take_stochastic_parts(1) t(1), symmetric]
    nth_of_take_eq [OF take_stochastic_parts(2) t(1), symmetric]
    nth_of_take_eq [OF take_obv_column t(1), symmetric]
  show "take n (add_indicators df) ! t = add_indicators (take n df) ! t"
    unfolding add_indicators_nth [OF sorted' t'] using t
    by (simp add: add_indicators_nth [OF assms t(2)] take_map [symmetric] cols)
qed

lemma length_add_bollinger [simp]: "length (add_bollinger df) = length df"
  by (simp add: add_bollinger_def Let_def)

lemma take_add_bollinger: "take n (add_bollinger df) = add_bollinger (take n df)"
proof (rule nth_equalityI)
  show "length (take n (add_bollinger df)) = length (add_bollinger (take n df))" by simp
next
  fix t
  assume "t < length (take n (add_bollinger df))"
  then have t: "t < n" "t < length df" by simp_all
  have r: "rolling 20 agg (map (\<lambda>r. Fin (Close r)) (take n df)) ! t
             = rolling 20 agg (map (\<lambda>r. Fin (Close r)) df) ! t" for agg
    using nth_of_take_eq [OF take_rolling t(1), where w1 = 20 and agg1 = agg
        and xs1 = "map (\<lambda>r. Fin (Close r)) df"]
    by (simp add: take_map [symmetric])
  show "take n (add_bollinger df) ! t = add_bollinger (take n df) ! t"
    using t by (simp add: add_bollinger_def Let_def r)
qed

text \<open>
  Claim C8. If two price series in date order agree on their first \<open>t + 1\<close> bars, their
  frames have the same row at index \<open>t\<close>: every derived field, the Bollinger bands
  included, depends on the bars up to \<open>t\<close> only.
\<close>

theorem no_look_ahead:
  assumes "sorted_wrt (<) (map Date xs)" and "sorted_wrt (<) (map Date ys)"
    and "take (Suc t) xs = take (Suc t) ys" and "t < length xs" and "t < length ys"
  shows "add_indicators xs ! t = add_indicators ys ! t
         \<and> add_bollinger (add_indicators xs) ! t = add_bollinger (add_indicators ys) ! t"
proof -
  have frames: "take (Suc t) (add_indicators xs) = take (Suc t) (add_indicators ys)"
    using assms(1,2,3) by (simp add: take_add_indicators)
  then have "take (Suc t) (add_bollinger (add_indicators xs))
               = take (Suc t) (add_bollinger (add_indicators ys))"
    by (simp add: take_add_bollinger)
  from nth_of_take_eq [OF frames, of t] nth_of_take_eq [OF this, of t]
  show ?thesis by simp
qed

theorem no_look_ahead_witness:
  "sorted_wrt (<) (map Date [flat_bar 0 100 1000, flat_bar 1 102 1000])
   \<and> sorted_wrt (<) (map Date [flat_bar 0 100 1000, flat_bar 1 50 7000, flat_bar 2 60 10])
   \<and> take (Suc 0) [flat_bar 0 100 1000, flat_bar 1 102 1000]
       = take (Suc 0) [flat_bar 0 100 1000, flat_bar 1 50 7000, flat_bar 2 60 10]
   \<and> add_bollinger (add_indicators [flat_bar 0 100 1000, flat_bar 1 102 1000]) ! 0
       = add_bollinger (add_indicators [flat_bar 0 100 1000, flat_bar 1 50 7000,
                                        flat_bar 2 60 10]) ! 0"
  using no_look_ahead [of "[flat_bar 0 100 1000, flat_bar 1 102 1000]"
      "[flat_bar 0 100 1000, flat_bar 1 50 7000, flat_bar 2 60 10]" 0]
  by simp

section \<open>The scorer in exact arithmetic\<close>

lemma fround_exact [simp]: "fround exact x = x"
  by (cases x) (simp_all add: fround_def exact_def)

lemma rops_exact [simp]:
  "radd exact x y = fadd x y" "rsub exact x y = fsub x y"
  "rmul exact x y = fmul x y" "rdiv exact x y = fdiv x y"
  by (simp_all add: radd_def rsub_def rmul_def rdiv_def)

lemma Fin_fin_val: "is_fin x \<Longrightarrow> Fin (fin_val x) = x"
  by (cases x) simp_all

lemma clip_fillna_bounds:
  "is_fin (clip 0.5 2.0 (fillna 1.0 x))
   \<and> 0.5 \<le> fin_val (clip 0.5 2.0 (fillna 1.0 x))
   \<and> fin_val (clip 0.5 2.0 (fillna 1.0 x)) \<le> 2.0"
  by (cases x) (simp_all add: fillna_def)

lemma foldl_fadd_Fin: "foldl fadd (Fin a) (map Fin ys) = Fin (a + sum_list ys)"
  by (induction ys arbitrary: a) (simp_all add: add.assoc)

lemma sum_list_bounds:
  fixes ys :: "real list"
  assumes "\<And>y. y \<in> set ys \<Longrightarrow> lo \<le> y \<and> y \<le> hi"
  shows "lo * real (length ys) \<le> sum_list ys \<and> sum_list ys \<le> hi * real (length ys)"
  using assms
proof (induction ys)
  case Nil
  then show ?case by simp
next
  case (Cons y ys)
  then have "lo \<le> y \<and> y \<le> hi" by simp
  moreover from Cons have "lo * real (length ys) \<le> sum_list ys \<and> sum_list ys \<le> hi * real (length ys)"
    by simp
  ultimately show ?case by (simp add: algebra_simps)
qed

lemma np_mean_exact_bounds:
  assumes "xs \<noteq> []"
    and "\<And>x. x \<in> set xs \<Longrightarrow> is_fin x \<and> lo \<le> fin_val x \<and> fin_val x \<le> hi"
  shows "\<exists>m. np_mean exact xs = Fin m \<and> lo \<le> m \<and> m \<le> hi"
proof -
  let ?ys = "map fin_val xs"
  have xs: "xs = map Fin ?ys"
    using assms(2) by (intro nth_equalityI) (simp_all add: Fin_fin_val)
  have n: "0 < real (length ?ys)" using assms(1) by simp
  have "\<And>y. y \<in> set ?ys \<Longrightarrow> lo \<le> y \<and> y \<le> hi"
    using assms(2) by fastforce
  then have b: "lo * real (length ?ys) \<le> sum_list ?ys \<and> sum_list ?ys \<le> hi * real (length ?ys)"
    by (rule sum_list_bounds)
  have "np_mean exact xs = np_mean exact (map Fin ?ys)" using xs by simp
  also have "\<dots> = fdiv (foldl fadd (Fin 0) (map Fin ?ys)) (Fin (real (length ?ys)))"
    by (simp add: np_mean_def rops_exact [abs_def])
  also have "\<dots> = Fin (sum_list ?ys / real (length ?ys))"
    unfolding foldl_fadd_Fin using n by simp
  finally have "np_mean exact xs = Fin (sum_list ?ys / real (length ?ys))" .
  moreover have "lo \<le> sum_list ?ys / real (length ?ys)"
    using b n by (simp add: pos_le_divide_eq)
  moreover have "sum_list ?ys / real (length ?ys) \<le> hi"
    using b n by (simp add: pos_divide_le_eq)
  ultimately show ?thesis by blast
qed

lemma tail_nonempty:
  assumes "xs \<noteq> []" and "1 \<le> n"
  shows "tail n xs \<noteq> []"
  using assms by (cases xs) (auto simp: tail_def)

lemma set_tail: "set (tail n xs) \<subseteq> set xs"
  by (auto simp: tail_def dest: in_set_dropD)

lemma recent_rows_nonempty:
  assumes "df \<noteq> []" and "1 \<le> lookback_period"
  shows "recent_rows df lookback_period \<noteq> []"
proof -
  have "1 \<le> int (length df)" using assms(1) by (cases df) simp_all
  then have "1 \<le> (if int (length df) < lookback_period then int (length df)
                    else lookback_period)"
    using assms(2) by simp
  with assms(1) show ?thesis unfolding recent_rows_def by (rule tail_nonempty)
qed

lemma length_recent_rows:
  assumes "1 \<le> lookback_period"
  shows "length (recent_rows df lookback_period) = min (length df) (nat lookback_period)"
  using assms by (auto simp: recent_rows_def tail_def)

lemma volume_weight_exact_bounds:
  assumes "recent_df \<noteq> []"
  shows "volume_weights_of exact recent_df \<noteq> []
         \<and> (\<exists>v. np_mean exact (volume_weights_of exact recent_df) = Fin v \<and> 0.5 \<le> v \<and> v \<le> 2.0)"
proof -
  have ne: "volume_weights_of exact recent_df \<noteq> []"
    using assms by (simp add: volume_weights_of_def Let_def tail_nonempty)
  moreover have "is_fin x \<and> 0.5 \<le> fin_val x \<and> fin_val x \<le> 2.0"
    if "x \<in> set (volume_weights_of exact recent_df)" for x
    using that clip_fillna_bounds by (auto simp: volume_weights_of_def Let_def)
  then have "\<exists>m. np_mean exact (volume_weights_of exact recent_df) = Fin m \<and> 0.5 \<le> m \<and> m \<le> 2.0"
    using ne by (intro np_mean_exact_bounds)
  ultimately show ?thesis by blast
qed

lemma signals_of_eq:
  "signals_of rnd recent_df =
     [(''RSI'', rsi_signal (RSI (last recent_df))),
      (''MACD'', macd_signal (MACD (last recent_df)) (MACD_Signal (last recent_df))
                   (MACD_Hist (last recent_df))
                   (if length recent_df > 1 then MACD_Hist (recent_df ! (length recent_df - 2))
                    else MACD_Hist (last recent_df))),
      (''Stochastic'', stoch_signal (Stoch_K (last recent_df)) (Stoch_D (last recent_df))),
      (''MA'', ma_signal (Fin (Close (last recent_df))) (MA_5 (last recent_df))
                 (MA_20 (last recent_df))),
      (''OBV'', obv_signal rnd recent_df)]"
  by (simp add: signals_of_def Let_def)

lemma signal_values:
  "rsi_signal x \<in> {20, 35, 45, 50, 55, 65, 80}"
  "macd_signal a b c d \<in> {25, 40, 50, 60, 75}"
  "stoch_signal k e \<in> {25, 40, 50, 60, 75}"
  "ma_signal p m5 m20 \<in> {30, 40, 50, 60, 70}"
  "obv_signal rnd recent_df \<in> {30, 45, 50, 55, 70}"
  by (simp_all add: rsi_signal_def macd_signal_def stoch_signal_def ma_signal_def
        obv_signal_def Let_def)

lemma final_score_of_exact:
  assumes "volume_weights \<noteq> []" and "np_mean exact volume_weights = Fin v" and "0 < v"
  shows "final_score_of exact
           [(''RSI'', r), (''MACD'', m), (''Stochastic'', s), (''MA'', a), (''OBV'', ob)]
           volume_weights
         = Fin (real_of_int r * 0.25 + real_of_int m * 0.25 + real_of_int s * 0.15
                + real_of_int a * 0.20 + real_of_int ob * 0.15)"
proof -
  have "foldl (weigh exact [(''RSI'', r), (''MACD'', m), (''Stochastic'', s), (''MA'', a), (''OBV'', ob)]
                 volume_weights) ([], Fin 0) indicator_weights
          = ([Fin (real_of_int r * (0.25 * v)), Fin (real_of_int m * (0.25 * v)),
              Fin (real_of_int s * (0.15 * v)), Fin (real_of_int a * (0.20 * v)),
              Fin (real_of_int ob * (0.15 * v))],
             Fin (0.25 * v + 0.25 * v + 0.15 * v + 0.20 * v + 0.15 * v))"
    using assms(1,2) by (simp add: indicator_weights_def exact_def)
  moreover have "0.25 * v + 0.25 * v + 0.15 * v + 0.20 * v + 0.15 * v = v" by simp
  ultimately show ?thesis
    using assms(3) by (simp add: final_score_of_def py_sum_def fgt_def field_simps)
qed

lemma simplified_score_exact:
  "simplified_score exact
     [(''RSI'', r), (''MACD'', m), (''Stochastic'', s), (''MA'', a), (''OBV'', ob)]
   = Fin (real_of_int r * 0.25 + real_of_int m * 0.25 + real_of_int s * 0.15
          + real_of_int a * 0.20 + real_of_int ob * 0.15)"
  by (simp add: simplified_score_def indicator_weights_def py_sum_def List.map_filter_def
        exact_def)


lemma blend_bounds:
  fixes r m s a ob :: int
  assumes "r \<in> {20, 35, 45, 50, 55, 65, 80}" and "m \<in> {25, 40, 50, 60, 75}"
    and "s \<in> {25, 40, 50, 60, 75}" and "a \<in> {30, 40, 50, 60, 70}"
    and "ob \<in> {30, 45, 50, 55, 70}"
  shows "20 \<le> real_of_int r * 0.25 + real_of_int m * 0.25 + real_of_int s * 0.15
                + real_of_int a * 0.20 + real_of_int ob * 0.15"
    and "real_of_int r * 0.25 + real_of_int m * 0.25 + real_of_int s * 0.15
           + real_of_int a * 0.20 + real_of_int ob * 0.15 \<le> 80"
proof -
  have r: "20 \<le> r \<and> r \<le> 80" using assms(1) by auto
  have m: "20 \<le> m \<and> m \<le> 80" using assms(2) by auto
  have s: "20 \<le> s \<and> s \<le> 80" using assms(3) by auto
  have a: "20 \<le> a \<and> a \<le> 80" using assms(4) by auto
  have ob: "20 \<le> ob \<and> ob \<le> 80" using assms(5) by auto
  have b: "20 \<le> real_of_int r" "real_of_int r \<le> 80" "20 \<le> real_of_int m"
    "real_of_int m \<le> 80" "20 \<le> real_of_int s" "real_of_int s \<le> 80"
    "20 \<le> real_of_int a" "real_of_int a \<le> 80" "20 \<le> real_of_int ob"
    "real_of_int ob \<le> 80"
    using r m s a ob by simp_all
  from b show "20 \<le> real_of_int r * 0.25 + real_of_int m * 0.25 + real_of_int s * 0.15
                + real_of_int a * 0.20 + real_of_int ob * 0.15"
    by (simp add: power2_eq_square)
  from b show "real_of_int r * 0.25 + real_of_int m * 0.25 + real_of_int s * 0.15
           + real_of_int a * 0.20 + real_of_int ob * 0.15 \<le> 80"
    by (simp add: power2_eq_square)
qed



text \<open>The result of the scorer in exact arithmetic, on a window with rows.\<close>

lemma calculate_probability_exact:
  assumes "recent_rows df lookback_period \<noteq> []"
  shows "\<exists>u. calculate_probability exact df lookback_period
               = Inr (Fin u, Fin (100 - u), signals_of exact (recent_rows df lookback_period))
             \<and> final_score_of exact (signals_of exact (recent_rows df lookback_period))
                 (volume_weights_of exact (recent_rows df lookback_period)) = Fin u
             \<and> simplified_score exact (signals_of exact (recent_rows df lookback_period)) = Fin u
             \<and> 20 \<le> u \<and> u \<le> 80"
proof -
  let ?recent = "recent_rows df lookback_period"
  from volume_weight_exact_bounds [OF assms]
  obtain v where ne: "volume_weights_of exact ?recent \<noteq> []"
    and v: "np_mean exact (volume_weights_of exact ?recent) = Fin v" "0.5 \<le> v"
    by blast
  then have "0 < v" by simp
  define r m s a ob where "r = rsi_signal (RSI (last ?recent))"
    and "m = macd_signal (MACD (last ?recent)) (MACD_Signal (last ?recent))
                   (MACD_Hist (last ?recent))
                   (if length ?recent > 1 then MACD_Hist (?recent ! (length ?recent - 2))
                    else MACD_Hist (last ?recent))"
    and "s = stoch_signal (Stoch_K (last ?recent)) (Stoch_D (last ?recent))"
    and "a = ma_signal (Fin (Close (last ?recent))) (MA_5 (last ?recent)) (MA_20 (last ?recent))"
    and "ob = obv_signal exact ?recent"
  define u where "u = real_of_int r * 0.25 + real_of_int m * 0.25 + real_of_int s * 0.15
              + real_of_int a * 0.20 + real_of_int ob * 0.15"
  have sig: "signals_of exact ?recent
               = [(''RSI'', r), (''MACD'', m), (''Stochastic'', s), (''MA'', a), (''OBV'', ob)]"
    unfolding r_def m_def s_def a_def ob_def by (rule signals_of_eq)
  have final: "final_score_of exact (signals_of exact ?recent) (volume_weights_of exact ?recent)
                 = Fin u"
    unfolding sig u_def using ne v(1) \<open>0 < v\<close> by (rule final_score_of_exact)
  have simpl: "simplified_score exact (signals_of exact ?recent) = Fin u"
    unfolding sig u_def by (rule simplified_score_exact)
  have vals: "r \<in> {20, 35, 45, 50, 55, 65, 80}" "m \<in> {25, 40, 50, 60, 75}"
    "s \<in> {25, 40, 50, 60, 75}" "a \<in> {30, 40, 50, 60, 70}" "ob \<in> {30, 45, 50, 55, 70}"
    unfolding r_def m_def s_def a_def ob_def by (rule signal_values)+
  have bounds: "20 \<le> u" "u \<le> 80"
    unfolding u_def by (rule blend_bounds [OF vals])+
  have clamp: "py_max (Fin 0) (py_min (Fin 100) (Fin u)) = Fin u"
    using bounds by (simp add: py_min_def py_max_def fgt_def)
  have "calculate_probability exact df lookback_period
          = Inr (Fin u, Fin (100 - u), signals_of exact ?recent)"
    using assms unfolding calculate_probability_def Let_def final clamp by simp
  with final simpl bounds show ?thesis by blast
qed

section \<open>Rounding errors of 64-bit arithmetic\<close>

lemma round_half_even_error: "\<bar>real_of_int (round_half_even y) - y\<bar> \<le> 1 / 2"
proof -
  have "real_of_int \<lfloor>y\<rfloor> \<le> y" "y < real_of_int \<lfloor>y\<rfloor> + 1" by linarith+
  then show ?thesis by (auto simp: round_half_even_def Let_def)
qed

lemma round_half_even_near_even:
  assumes "even N" and "\<bar>t\<bar> \<le> 1 / 2"
  shows "round_half_even (real_of_int N + t) = N"
proof (cases "t < 0")
  case True
  with assms(2) have "\<lfloor>real_of_int N + t\<rfloor> = N - 1" by (intro floor_unique) simp_all
  then show ?thesis
    unfolding round_half_even_def Let_def using True assms by simp
next
  case False
  with assms(2) have "\<lfloor>real_of_int N + t\<rfloor> = N" by (intro floor_unique) simp_all
  then show ?thesis
    unfolding round_half_even_def Let_def using False assms by simp
qed

lemma round_half_even_nonneg: "0 \<le> y \<Longrightarrow> 0 \<le> round_half_even y"
  by (auto simp: round_half_even_def Let_def)

lemma binade_le_6:
  assumes "0 < x" and "x < 128"
  shows "binade x \<le> 6"
proof (cases "1 \<le> x")
  case True
  have "\<lfloor>x\<rfloor> < 2 ^ nat 7" using assms(2) by (simp add: floor_less_iff)
  then have "bitlen \<lfloor>x\<rfloor> \<le> 7" by (simp add: bitlen_le_iff_power)
  with True assms(1) show ?thesis by (simp add: binade_def)
next
  case False
  with assms(1) have "1 < 1 / x" by simp
  then have "1 \<le> \<lfloor>1 / x\<rfloor>" by linarith
  then have "1 \<le> bitlen \<lfloor>1 / x\<rfloor>" by (simp add: bitlen_ge_iff_power)
  with False assms(1) show ?thesis by (auto simp: binade_def Let_def)
qed

lemma binary64_error_below_128:
  assumes "0 \<le> x" and "x < 128"
  shows "\<bar>binary64 x - x\<bar> \<le> 1 / 2 ^ 47"
proof (cases "x = 0")
  case True
  then show ?thesis by (simp add: binary64_def)
next
  case False
  with assms have pos: "0 < x" by simp
  define s where "s = nat (52 - binade x)"
  have "binade x \<le> 6" using pos assms(2) by (rule binade_le_6)
  then have s: "52 - binade x = int s" "46 \<le> s" by (simp_all add: s_def)
  define m where "m = round_half_even (x * 2 ^ s)"
  have b: "binary64 x = real_of_int m / 2 ^ s"
    using False s by (simp add: binary64_def scale2_def Let_def m_def)
  have "\<bar>real_of_int m - x * 2 ^ s\<bar> \<le> 1 / 2"
    unfolding m_def by (rule round_half_even_error)
  then have "\<bar>real_of_int m - x * 2 ^ s\<bar> / 2 ^ s \<le> (1 / 2) / 2 ^ s"
    by (rule divide_right_mono) simp
  moreover have "\<bar>real_of_int m - x * 2 ^ s\<bar> / 2 ^ s = \<bar>real_of_int m / 2 ^ s - x\<bar>"
    by (simp add: field_simps abs_divide)
  moreover have "(1 / 2) / (2::real) ^ s \<le> (1 / 2) / 2 ^ 46"
    using s(2) by (intro divide_left_mono power_increasing) simp_all
  ultimately have "\<bar>real_of_int m / 2 ^ s - x\<bar> \<le> (1 / 2) / 2 ^ 46" by linarith
  then show ?thesis unfolding b by simp
qed

lemma binary64_near_100:
  assumes "\<bar>e\<bar> \<le> 1 / 2 ^ 47"
  shows "binary64 (100 + e) = 100"
proof -
  have small: "\<bar>e\<bar> < 1" using assms by (rule order_le_less_trans) simp
  then have "99 \<le> 100 + e" "100 + e < 101" by (simp_all add: abs_less_iff)
  then have "99 \<le> \<lfloor>100 + e\<rfloor>" "\<lfloor>100 + e\<rfloor> < 101"
    by (simp_all only: le_floor_iff floor_less_iff of_int_numeral)
  then have fl: "\<lfloor>100 + e\<rfloor> = 99 \<or> \<lfloor>100 + e\<rfloor> = 100" by linarith
  have b: "bitlen 99 = 7" "bitlen 100 = 7" by code_simp+
  have bl: "bitlen \<lfloor>100 + e\<rfloor> = 7"
    using fl
  proof
    assume a: "\<lfloor>100 + e\<rfloor> = 99"
    show ?thesis unfolding a by (rule b(1))
  next
    assume a: "\<lfloor>100 + e\<rfloor> = 100"
    show ?thesis unfolding a by (rule b(2))
  qed
  have ab: "\<bar>100 + e\<bar> = 100 + e" "1 \<le> 100 + e" "100 + e \<noteq> 0"
    using small by (simp_all add: abs_less_iff)
  have "binade (100 + e) = bitlen \<lfloor>100 + e\<rfloor> - 1"
    unfolding binade_def Let_def ab(1) using ab(2) by (simp only: if_True)
  then have k: "binade (100 + e) = 6" "100 + e \<noteq> 0"
    unfolding bl using ab(3) by simp_all
  have "(100 + e) * 2 ^ 46 = real_of_int (100 * 2 ^ 46) + e * 2 ^ 46"
    by (simp add: algebra_simps)
  moreover have "\<bar>e * 2 ^ 46\<bar> \<le> 1 / 2"
    using assms by (simp add: abs_mult field_simps)
  moreover have "even (100 * 2 ^ 46 :: int)" by simp
  ultimately have "round_half_even ((100 + e) * 2 ^ 46) = 100 * 2 ^ 46"
    by (simp only: round_half_even_near_even)
  then show ?thesis
    using k by (simp add: binary64_def scale2_def Let_def)
qed

lemma binary64_complement:
  assumes "0 \<le> u" and "u \<le> 100"
  shows "binary64 (u + binary64 (100 - u)) = 100"
    and "0 \<le> binary64 (100 - u)" and "binary64 (100 - u) \<le> 100"
proof -
  let ?w = "100 - u"
  have w: "0 \<le> ?w" "?w < 128" using assms by simp_all
  then have err: "\<bar>binary64 ?w - ?w\<bar> \<le> 1 / 2 ^ 47" by (rule binary64_error_below_128)
  have eq: "u + binary64 ?w = 100 + (binary64 ?w - ?w)" by simp
  show "binary64 (u + binary64 ?w) = 100"
    unfolding eq by (rule binary64_near_100 [OF err])
  show "0 \<le> binary64 ?w"
  proof (cases "?w = 0")
    case True
    then show ?thesis by (simp add: binary64_def)
  next
    case False
    with w have pos: "0 < ?w" by simp
    have "binade ?w \<le> 6" using pos w(2) by (rule binade_le_6)
    then have "0 \<le> 52 - binade ?w" by simp
    then show ?thesis
      using pos by (simp add: binary64_def scale2_def Let_def round_half_even_nonneg)
  qed
  show "binary64 ?w \<le> 100"
  proof (cases "?w \<le> 100 - 1 / 2 ^ 47")
    case True
    with err show ?thesis by linarith
  next
    case False
    then have "\<bar>- u\<bar> \<le> 1 / 2 ^ 47" using assms(1) by linarith
    from binary64_near_100 [OF this] show ?thesis by simp
  qed
qed

lemma scale2_powr: "scale2 x s = x * 2 powr (real_of_int s)"
proof (cases "0 \<le> s")
  case True
  then have "real_of_int s = real (nat s)" by simp
  then have "2 powr (real_of_int s) = (2::real) ^ nat s"
    by (simp only: powr_realpow zero_less_numeral)
  with True show ?thesis by (simp add: scale2_def)
next
  case False
  then have "real_of_int s = - real (nat (- s))" by simp
  then have "2 powr (real_of_int s) = 1 / (2::real) ^ nat (- s)"
    by (simp only: powr_minus_divide powr_realpow zero_less_numeral)
  with False show ?thesis by (simp add: scale2_def)
qed

lemma binade_lower:
  assumes "0 < x"
  shows "2 powr (real_of_int (binade x)) \<le> x"
proof (cases "1 \<le> x")
  case True
  then have fl: "0 < \<lfloor>x\<rfloor>" by linarith
  define k where "k = bitlen \<lfloor>x\<rfloor> - 1"
  from bitlen_bounds [OF fl] have "2 ^ nat k \<le> \<lfloor>x\<rfloor>" by (simp add: k_def)
  then have "real_of_int (2 ^ nat k) \<le> real_of_int \<lfloor>x\<rfloor>" by (simp only: of_int_le_iff)
  also have "\<dots> \<le> x" by simp
  finally have le: "(2::real) ^ nat k \<le> x" by simp
  have "1 \<le> bitlen \<lfloor>x\<rfloor>" using fl by (simp add: bitlen_ge_iff_power)
  then have "0 \<le> k" by (simp add: k_def)
  then have "real_of_int k = real (nat k)" by simp
  then have "2 powr (real_of_int k) = (2::real) ^ nat k"
    by (simp only: powr_realpow zero_less_numeral)
  moreover have "binade x = k" using True assms by (simp add: binade_def k_def)
  ultimately show ?thesis using le by simp
next
  case False
  with assms have inv: "1 < 1 / x" by simp
  then have fl: "0 < \<lfloor>1 / x\<rfloor>" by linarith
  define j where "j = bitlen \<lfloor>1 / x\<rfloor> - 1"
  have "1 \<le> bitlen \<lfloor>1 / x\<rfloor>" using fl by (simp add: bitlen_ge_iff_power)
  then have j0: "0 \<le> j" by (simp add: j_def)
  then have nj: "nat (bitlen \<lfloor>1 / x\<rfloor>) = Suc (nat j)" by (simp add: j_def)
  from bitlen_bounds [OF fl] have "\<lfloor>1 / x\<rfloor> < 2 ^ Suc (nat j)" unfolding nj by simp
  then have "\<lfloor>1 / x\<rfloor> + 1 \<le> 2 ^ Suc (nat j)" by simp
  then have "real_of_int (\<lfloor>1 / x\<rfloor> + 1) \<le> real_of_int (2 ^ Suc (nat j))"
    by (simp only: of_int_le_iff)
  also have "real_of_int (2 ^ Suc (nat j)) = 2 ^ Suc (nat j)" by simp
  finally have B: "real_of_int (\<lfloor>1 / x\<rfloor> + 1) \<le> 2 ^ Suc (nat j)" .
  have A: "1 / x < real_of_int (\<lfloor>1 / x\<rfloor> + 1)" by linarith
  from A B have "1 / x < 2 ^ Suc (nat j)" by (rule less_le_trans)
  then have lower: "1 / 2 ^ Suc (nat j) < x"
    using assms by (simp add: field_simps)
  have bin: "binade x = (if x * 2 ^ nat j = 1 then - j else - j - 1)"
    using False assms by (simp add: binade_def Let_def j_def)
  show ?thesis
  proof (cases "x * 2 ^ nat j = 1")
    case True
    then have "x = 1 / 2 ^ nat j" by (simp add: field_simps)
    moreover have "real_of_int (- j) = - real (nat j)" using j0 by simp
    then have "2 powr (real_of_int (- j)) = 1 / (2::real) ^ nat j"
      by (simp only: powr_minus_divide powr_realpow zero_less_numeral)
    ultimately show ?thesis using bin True by simp
  next
    case neq: False
    have "real_of_int (- j - 1) = - real (Suc (nat j))" using j0 by simp
    then have "2 powr (real_of_int (- j - 1)) = 1 / (2::real) ^ Suc (nat j)"
      by (simp only: powr_minus_divide powr_realpow zero_less_numeral)
    with lower bin neq show ?thesis by simp
  qed
qed

lemma binary64_relative_error:
  assumes "0 < x"
  shows "\<bar>binary64 x - x\<bar> \<le> x / 2 ^ 53"
proof -
  define k where "k = binade x"
  define m where "m = round_half_even (x * 2 powr (real_of_int (52 - k)))"
  have b: "binary64 x = real_of_int m * 2 powr (real_of_int (k - 52))"
    using assms by (simp add: binary64_def Let_def scale2_powr m_def k_def)
  have p: "2 powr (real_of_int (52 - k)) * 2 powr (real_of_int (k - 52)) = 1"
    by (simp add: powr_add [symmetric])
  let ?P = "2 powr (real_of_int (52 - k))" and ?Q = "2 powr (real_of_int (k - 52))"
  have "\<bar>real_of_int m - x * ?P\<bar> \<le> 1 / 2"
    unfolding m_def by (rule round_half_even_error)
  then have e1: "\<bar>real_of_int m - x * ?P\<bar> * ?Q \<le> (1 / 2) * ?Q"
    by (rule mult_right_mono) simp
  have e2: "\<bar>real_of_int m - x * ?P\<bar> * ?Q = \<bar>(real_of_int m - x * ?P) * ?Q\<bar>"
    by (rule abs_mult_pos) simp
  have "(real_of_int m - x * ?P) * ?Q = real_of_int m * ?Q - x * (?P * ?Q)"
    by (simp only: left_diff_distrib mult.assoc)
  also have "\<dots> = binary64 x - x"
    unfolding b p by simp
  finally have e3: "(real_of_int m - x * ?P) * ?Q = binary64 x - x" .
  have "\<bar>binary64 x - x\<bar> = \<bar>real_of_int m - x * ?P\<bar> * ?Q"
    unfolding e2 e3 ..
  also note e1
  finally have "\<bar>binary64 x - x\<bar> \<le> (1 / 2) * 2 powr (real_of_int (k - 52))" .
  also have "2 powr (real_of_int (k - 52)) = 2 powr (real_of_int k) / 2 ^ 52"
    by (simp add: powr_diff)
  also have "(1 / 2) * (2 powr (real_of_int k) / 2 ^ 52) = 2 powr (real_of_int k) / 2 ^ 53"
    by simp
  also have "\<dots> \<le> x / 2 ^ 53"
    using binade_lower [OF assms] unfolding k_def by (rule divide_right_mono) simp
  finally show ?thesis .
qed

lemma binary64_close:
  assumes "0 < x"
  shows "999 / 1000 * x \<le> binary64 x" and "binary64 x \<le> 1001 / 1000 * x"
proof -
  have "x / 2 ^ 53 \<le> x / 1000" using assms by (intro divide_left_mono) simp_all
  with binary64_relative_error [OF assms] have "\<bar>binary64 x - x\<bar> \<le> x / 1000" by linarith
  then show "999 / 1000 * x \<le> binary64 x" and "binary64 x \<le> 1001 / 1000 * x"
    by linarith+
qed

section \<open>The scorer under a close rounding\<close>

lemma close_rounding_exact: "close_rounding exact"
  by (simp add: close_rounding_def exact_def)

lemma close_rounding_binary64: "close_rounding binary64"
  unfolding close_rounding_def using binary64_close by blast

lemma close_roundingD:
  assumes "close_rounding rnd" and "0 < x"
  shows "999 / 1000 * x \<le> rnd x" and "rnd x \<le> 1001 / 1000 * x" and "0 < rnd x"
proof -
  from assms show a: "999 / 1000 * x \<le> rnd x" and "rnd x \<le> 1001 / 1000 * x"
    by (simp_all add: close_rounding_def)
  from assms(2) have "0 < 999 / 1000 * x" by simp
  with a show "0 < rnd x" by linarith
qed

lemma fround_Fin [simp]: "fround rnd (Fin x) = Fin (rnd x)"
  by (simp add: fround_def)

lemma foldl_radd_Fin:
  "foldl (radd rnd) (Fin acc) (map Fin xs) = Fin (foldl (\<lambda>s x. rnd (s + x)) acc xs)"
  by (induction xs arbitrary: acc) (simp_all add: radd_def)

lemma rounded_sum_bounds:
  assumes "close_rounding rnd" and "0 \<le> acc" and "\<And>x. x \<in> set xs \<Longrightarrow> 0 < x"
  shows "(999 / 1000) ^ length xs * (acc + sum_list xs) \<le> foldl (\<lambda>s x. rnd (s + x)) acc xs
         \<and> foldl (\<lambda>s x. rnd (s + x)) acc xs \<le> (1001 / 1000) ^ length xs * (acc + sum_list xs)"
  using assms(2,3)
proof (induction xs arbitrary: acc)
  case Nil
  then show ?case by simp
next
  case (Cons x xs)
  let ?acc' = "rnd (acc + x)"
  let ?F = "foldl (\<lambda>s x. rnd (s + x)) ?acc' xs"
  have x: "0 < x" using Cons.prems(2) by simp
  then have pos: "0 < acc + x" using Cons.prems(1) by simp
  note r = close_roundingD [OF assms(1) pos]
  have rest: "0 \<le> sum_list xs"
    using Cons.prems(2) by (intro sum_list_nonneg) (simp add: less_imp_le)
  have IH: "(999 / 1000) ^ length xs * (?acc' + sum_list xs) \<le> ?F
            \<and> ?F \<le> (1001 / 1000) ^ length xs * (?acc' + sum_list xs)"
    using r(3) Cons.prems(2) by (intro Cons.IH) simp_all
  have "999 / 1000 * (acc + x + sum_list xs) \<le> ?acc' + sum_list xs"
    using r(1) rest by (simp add: algebra_simps)
  then have "(999 / 1000) ^ length xs * (999 / 1000 * (acc + x + sum_list xs))
               \<le> (999 / 1000) ^ length xs * (?acc' + sum_list xs)"
    by (intro mult_left_mono) simp_all
  with IH have lower: "(999 / 1000) ^ length (x # xs) * (acc + sum_list (x # xs)) \<le> ?F"
    by (simp add: algebra_simps)
  have "?acc' + sum_list xs \<le> 1001 / 1000 * (acc + x + sum_list xs)"
    using r(2) rest by (simp add: algebra_simps)
  then have "(1001 / 1000) ^ length xs * (?acc' + sum_list xs)
               \<le> (1001 / 1000) ^ length xs * (1001 / 1000 * (acc + x + sum_list xs))"
    by (intro mult_left_mono) simp_all
  with IH have upper: "?F \<le> (1001 / 1000) ^ length (x # xs) * (acc + sum_list (x # xs))"
    by (simp add: algebra_simps)
  from lower upper show ?case by simp
qed

lemma adjusted_weight_bounds:
  assumes "close_rounding rnd" and "0 < v" and "0 < b"
  shows "998 / 1000 * (b * v) \<le> rnd (rnd b * v)"
    and "rnd (rnd b * v) \<le> 1003 / 1000 * (b * v)"
    and "0 < rnd (rnd b * v)"
proof -
  note rb = close_roundingD [OF assms(1,3)]
  have pos: "0 < rnd b * v" using rb(3) assms(2) by simp
  note rw = close_roundingD [OF assms(1) pos]
  have "999 / 1000 * b * v \<le> rnd b * v" "rnd b * v \<le> 1001 / 1000 * b * v"
    using rb(1,2) assms(2) by (simp_all add: mult_right_mono)
  moreover have "0 < b * v" using assms(2,3) by simp
  ultimately show "998 / 1000 * (b * v) \<le> rnd (rnd b * v)"
    and "rnd (rnd b * v) \<le> 1003 / 1000 * (b * v)"
    using rw(1,2) by linarith+
  show "0 < rnd (rnd b * v)" by (rule rw(3))
qed

lemma weighted_score_bounds:
  assumes "close_rounding rnd" and "0 < w" and "0 < slo" and "slo \<le> sc" and "sc \<le> shi"
  shows "999 / 1000 * (slo * w) \<le> rnd (sc * w)"
    and "rnd (sc * w) \<le> 1001 / 1000 * (shi * w)"
    and "0 < rnd (sc * w)"
proof -
  have pos: "0 < sc * w" using assms(2,3,4) by simp
  note r = close_roundingD [OF assms(1) pos]
  have "slo * w \<le> sc * w" "sc * w \<le> shi * w"
    using assms(2,4,5) by (simp_all add: mult_right_mono)
  with r(1,2) show "999 / 1000 * (slo * w) \<le> rnd (sc * w)"
    and "rnd (sc * w) \<le> 1001 / 1000 * (shi * w)"
    by linarith+
  show "0 < rnd (sc * w)" by (rule r(3))
qed

lemma np_mean_rounded_pos:
  assumes "close_rounding rnd" and "xs \<noteq> []"
    and "\<And>x. x \<in> set xs \<Longrightarrow> is_fin x \<and> 0 < fin_val x"
  shows "\<exists>v. np_mean rnd xs = Fin v \<and> 0 < v"
proof -
  define ys where "ys = map fin_val xs"
  have xs: "xs = map Fin ys"
    unfolding ys_def using assms(3) by (intro nth_equalityI) (simp_all add: Fin_fin_val)
  have pos: "\<And>y. y \<in> set ys \<Longrightarrow> 0 < y" unfolding ys_def using assms(3) by auto
  define S where "S = foldl (\<lambda>s x. rnd (s + x)) 0 ys"
  have len: "length xs = length ys" by (simp add: ys_def)
  have n: "0 < real (length ys)" using assms(2) by (simp add: ys_def)
  have "ys \<noteq> []" using assms(2) by (simp add: ys_def)
  then have "0 < sum_list ys" using pos by (intro sum_list_pos_real)
  then have low: "0 < (999 / 1000) ^ length ys * (0 + sum_list ys)" by simp
  have "(999 / 1000) ^ length ys * (0 + sum_list ys) \<le> S"
    unfolding S_def using rounded_sum_bounds [OF assms(1) order_refl pos] by blast
  with low have S: "0 < S" by (rule less_le_trans)
  have "np_mean rnd (map Fin ys) = Fin (rnd (S / real (length ys)))"
    unfolding np_mean_def foldl_radd_Fin S_def using n by (simp add: rdiv_def)
  then have "np_mean rnd xs = Fin (rnd (S / real (length ys)))"
    unfolding xs .
  moreover have "0 < rnd (S / real (length ys))"
    using S n by (intro close_roundingD(3) [OF assms(1)]) simp
  ultimately show ?thesis by blast
qed

lemma volume_weight_rounded_pos:
  assumes "close_rounding rnd" and "recent_df \<noteq> []"
  shows "volume_weights_of rnd recent_df \<noteq> []
         \<and> (\<exists>v. np_mean rnd (volume_weights_of rnd recent_df) = Fin v \<and> 0 < v)"
proof -
  have ne: "volume_weights_of rnd recent_df \<noteq> []"
    using assms(2) by (simp add: volume_weights_of_def Let_def tail_nonempty)
  have "is_fin x \<and> 0 < fin_val x" if "x \<in> set (volume_weights_of rnd recent_df)" for x
  proof -
    from that obtain y where "x = clip 0.5 2.0 (fillna 1.0 y)"
      by (auto simp: volume_weights_of_def Let_def)
    with clip_fillna_bounds [of y] show ?thesis by simp
  qed
  with assms(1) ne have "\<exists>v. np_mean rnd (volume_weights_of rnd recent_df) = Fin v \<and> 0 < v"
    by (intro np_mean_rounded_pos)
  with ne show ?thesis by blast
qed

lemma weigh_step:
  assumes "volume_weights \<noteq> []" and "np_mean rnd volume_weights = Fin v"
    and "map_of signals k = Some sc"
  shows "weigh rnd signals volume_weights (ws, Fin t) (k, b)
         = (ws @ [Fin (rnd (real_of_int sc * rnd (rnd b * v)))], Fin (rnd (t + rnd (rnd b * v))))"
  using assms by (simp add: radd_def rmul_def)

lemma foldl_weigh_rounded:
  assumes "volume_weights \<noteq> []" and "np_mean rnd volume_weights = Fin v"
  shows "foldl (weigh rnd [(''RSI'', r), (''MACD'', m), (''Stochastic'', s), (''MA'', a),
                           (''OBV'', ob)] volume_weights)
           ([], Fin 0)
           [(''RSI'', b1), (''MACD'', b2), (''Stochastic'', b3), (''MA'', b4), (''OBV'', b5)]
         = ([Fin (rnd (real_of_int r * rnd (rnd b1 * v))),
             Fin (rnd (real_of_int m * rnd (rnd b2 * v))),
             Fin (rnd (real_of_int s * rnd (rnd b3 * v))),
             Fin (rnd (real_of_int a * rnd (rnd b4 * v))),
             Fin (rnd (real_of_int ob * rnd (rnd b5 * v)))],
            Fin (foldl (\<lambda>t w. rnd (t + w)) 0
                   [rnd (rnd b1 * v), rnd (rnd b2 * v), rnd (rnd b3 * v), rnd (rnd b4 * v),
                    rnd (rnd b5 * v)]))"
proof -
  let ?sig = "[(''RSI'', r), (''MACD'', m), (''Stochastic'', s), (''MA'', a), (''OBV'', ob)]"
  note st = weigh_step [OF assms, where signals = ?sig]
  have k: "map_of ?sig ''RSI'' = Some r" "map_of ?sig ''MACD'' = Some m"
    "map_of ?sig ''Stochastic'' = Some s" "map_of ?sig ''MA'' = Some a"
    "map_of ?sig ''OBV'' = Some ob"
    by simp_all
  show ?thesis
    by (simp only: foldl_Cons foldl_Nil st [OF k(1)] st [OF k(2)] st [OF k(3)] st [OF k(4)]
          st [OF k(5)] append_Nil append_Cons)
qed

lemma final_score_from_fold:
  assumes "foldl (weigh rnd signals volume_weights) ([], Fin 0) indicator_weights
             = (map Fin ps, Fin T)"
    and "0 < T"
  shows "final_score_of rnd signals volume_weights
           = Fin (rnd (foldl (\<lambda>t p. rnd (t + p)) 0 ps / T))"
  using assms(2)
  by (simp add: final_score_of_def assms(1) py_sum_def foldl_radd_Fin fgt_def rdiv_def)

lemma power5_bounds:
  "(99 / 100 :: real) \<le> (999 / 1000) ^ 5" "(1001 / 1000) ^ 5 \<le> (101 / 100 :: real)"
  by (simp_all add: power_divide)

lemma rounded_sum5_bounds:
  assumes "close_rounding rnd"
    and "0 < x1" and "0 < x2" and "0 < x3" and "0 < x4" and "0 < x5"
  shows "99 / 100 * (x1 + x2 + x3 + x4 + x5) \<le> foldl (\<lambda>t x. rnd (t + x)) 0 [x1, x2, x3, x4, x5]"
    and "foldl (\<lambda>t x. rnd (t + x)) 0 [x1, x2, x3, x4, x5] \<le> 101 / 100 * (x1 + x2 + x3 + x4 + x5)"
proof -
  let ?xs = "[x1, x2, x3, x4, x5]"
  let ?F = "foldl (\<lambda>t x. rnd (t + x)) 0 ?xs"
  let ?X = "x1 + x2 + x3 + x4 + x5"
  have pos: "\<And>x. x \<in> set ?xs \<Longrightarrow> 0 < x" using assms(2-) by auto
  have X: "0 \<le> ?X" using assms(2-) by simp
  from rounded_sum_bounds [OF assms(1) order_refl pos]
  have "(999 / 1000) ^ length ?xs * (0 + sum_list ?xs) \<le> ?F
        \<and> ?F \<le> (1001 / 1000) ^ length ?xs * (0 + sum_list ?xs)" .
  moreover have "0 + sum_list ?xs = ?X" by simp
  moreover have "length ?xs = 5" by simp
  ultimately have F: "(999 / 1000) ^ 5 * ?X \<le> ?F" "?F \<le> (1001 / 1000) ^ 5 * ?X"
    by (simp_all only:)
  have "99 / 100 * ?X \<le> (999 / 1000) ^ 5 * ?X"
    using power5_bounds(1) X by (rule mult_right_mono)
  then show "99 / 100 * ?X \<le> ?F" using F(1) by (rule order_trans)
  have "(1001 / 1000) ^ 5 * ?X \<le> 101 / 100 * ?X"
    using power5_bounds(2) X by (rule mult_right_mono)
  with F(2) show "?F \<le> 101 / 100 * ?X" by (rule order_trans)
qed

lemma weighted_score_int_bounds:
  fixes lo sc hi :: int
  assumes "close_rounding rnd" and "0 < w" and "0 < lo" and "lo \<le> sc" and "sc \<le> hi"
  shows "999 / 1000 * (real_of_int lo * w) \<le> rnd (real_of_int sc * w)"
    and "rnd (real_of_int sc * w) \<le> 1001 / 1000 * (real_of_int hi * w)"
    and "0 < rnd (real_of_int sc * w)"
proof -
  have "0 < real_of_int lo" "real_of_int lo \<le> real_of_int sc"
    "real_of_int sc \<le> real_of_int hi"
    using assms(3-5) by simp_all
  note weighted_score_bounds [OF assms(1,2) this]
  then show "999 / 1000 * (real_of_int lo * w) \<le> rnd (real_of_int sc * w)"
    and "rnd (real_of_int sc * w) \<le> 1001 / 1000 * (real_of_int hi * w)"
    and "0 < rnd (real_of_int sc * w)" .
qed

lemma final_score_of_rounded:
  fixes r m s a ob :: int
  assumes cr: "close_rounding rnd"
    and ne: "volume_weights \<noteq> []" and v: "np_mean rnd volume_weights = Fin v" and vpos: "0 < v"
    and r: "20 \<le> r" "r \<le> 80" and m: "25 \<le> m" "m \<le> 75" and s: "25 \<le> s" "s \<le> 75"
    and a: "30 \<le> a" "a \<le> 70" and ob: "30 \<le> ob" "ob \<le> 70"
  shows "\<exists>u. final_score_of rnd
                [(''RSI'', r), (''MACD'', m), (''Stochastic'', s), (''MA'', a), (''OBV'', ob)]
                volume_weights = Fin u
             \<and> 20 \<le> u \<and> u \<le> 80"
proof -
  define w1 where "w1 = rnd (rnd 0.25 * v)"
  define w3 where "w3 = rnd (rnd 0.15 * v)"
  define w4 where "w4 = rnd (rnd 0.20 * v)"
  define p1 where "p1 = rnd (real_of_int r * w1)"
  define p2 where "p2 = rnd (real_of_int m * w1)"
  define p3 where "p3 = rnd (real_of_int s * w3)"
  define p4 where "p4 = rnd (real_of_int a * w4)"
  define p5 where "p5 = rnd (real_of_int ob * w3)"
  define T where "T = foldl (\<lambda>t w. rnd (t + w)) 0 [w1, w1, w3, w4, w3]"
  define N where "N = foldl (\<lambda>t p. rnd (t + p)) 0 [p1, p2, p3, p4, p5]"
  have b: "0 < (0.25::real)" "0 < (0.15::real)" "0 < (0.20::real)" by simp_all
  have w1: "998 / 1000 * (0.25 * v) \<le> w1" "w1 \<le> 1003 / 1000 * (0.25 * v)" "0 < w1"
    unfolding w1_def by (rule adjusted_weight_bounds [OF cr vpos b(1)])+
  have w3: "998 / 1000 * (0.15 * v) \<le> w3" "w3 \<le> 1003 / 1000 * (0.15 * v)" "0 < w3"
    unfolding w3_def by (rule adjusted_weight_bounds [OF cr vpos b(2)])+
  have w4: "998 / 1000 * (0.20 * v) \<le> w4" "w4 \<le> 1003 / 1000 * (0.20 * v)" "0 < w4"
    unfolding w4_def by (rule adjusted_weight_bounds [OF cr vpos b(3)])+
  have p1: "999 / 1000 * (20 * w1) \<le> p1" "p1 \<le> 1001 / 1000 * (80 * w1)" "0 < p1"
    unfolding p1_def using weighted_score_int_bounds [OF cr w1(3) _ r] by simp_all
  have p2: "999 / 1000 * (25 * w1) \<le> p2" "p2 \<le> 1001 / 1000 * (75 * w1)" "0 < p2"
    unfolding p2_def using weighted_score_int_bounds [OF cr w1(3) _ m] by simp_all
  have p3: "999 / 1000 * (25 * w3) \<le> p3" "p3 \<le> 1001 / 1000 * (75 * w3)" "0 < p3"
    unfolding p3_def using weighted_score_int_bounds [OF cr w3(3) _ s] by simp_all
  have p4: "999 / 1000 * (30 * w4) \<le> p4" "p4 \<le> 1001 / 1000 * (70 * w4)" "0 < p4"
    unfolding p4_def using weighted_score_int_bounds [OF cr w4(3) _ a] by simp_all
  have p5: "999 / 1000 * (30 * w3) \<le> p5" "p5 \<le> 1001 / 1000 * (70 * w3)" "0 < p5"
    unfolding p5_def using weighted_score_int_bounds [OF cr w3(3) _ ob] by simp_all
  have T: "99 / 100 * (w1 + w1 + w3 + w4 + w3) \<le> T" "T \<le> 101 / 100 * (w1 + w1 + w3 + w4 + w3)"
    unfolding T_def by (rule rounded_sum5_bounds [OF cr w1(3) w1(3) w3(3) w4(3) w3(3)])+
  have N: "99 / 100 * (p1 + p2 + p3 + p4 + p5) \<le> N" "N \<le> 101 / 100 * (p1 + p2 + p3 + p4 + p5)"
    unfolding N_def by (rule rounded_sum5_bounds [OF cr p1(3) p2(3) p3(3) p4(3) p5(3)])+
  have w1': "2495 / 10000 * v \<le> w1" "w1 \<le> 25075 / 100000 * v" using w1(1,2) by simp_all
  have w3': "1497 / 10000 * v \<le> w3" "w3 \<le> 15045 / 100000 * v" using w3(1,2) by simp_all
  have w4': "1996 / 10000 * v \<le> w4" "w4 \<le> 2006 / 10000 * v" using w4(1,2) by simp_all
  have Tpos: "0 < T" using T(1) w1(3) w3(3) w4(3) by argo
  have lo: "21 * T \<le> N"
    using T(2) N(1) p1(1) p2(1) p3(1) p4(1) p5(1) w1' w3' w4' vpos by argo
  have hi: "N \<le> 79 * T"
    using T(1) N(2) p1(2) p2(2) p3(2) p4(2) p5(2) w1' w3' w4' vpos by argo
  have q: "21 \<le> N / T" "N / T \<le> 79"
    using lo hi Tpos by (simp_all add: pos_le_divide_eq pos_divide_le_eq)
  then have "0 < N / T" by argo
  note rq = close_roundingD [OF cr this]
  have u: "20 \<le> rnd (N / T)" "rnd (N / T) \<le> 80" using rq(1,2) q by argo+
  have "foldl (weigh rnd [(''RSI'', r), (''MACD'', m), (''Stochastic'', s), (''MA'', a),
                           (''OBV'', ob)] volume_weights) ([], Fin 0) indicator_weights
          = (map Fin [p1, p2, p3, p4, p5], Fin T)"
    unfolding indicator_weights_def T_def p1_def p2_def p3_def p4_def p5_def w1_def w3_def w4_def
    by (simp only: foldl_weigh_rounded [OF ne v] list.map)
  from final_score_from_fold [OF this Tpos]
  have "final_score_of rnd
          [(''RSI'', r), (''MACD'', m), (''Stochastic'', s), (''MA'', a), (''OBV'', ob)]
          volume_weights = Fin (rnd (N / T))"
    unfolding N_def .
  with u show ?thesis by blast
qed

text \<open>The result of the scorer under a close rounding, on a window with rows.\<close>

lemma calculate_probability_rounded:
  assumes "close_rounding rnd" and "recent_rows df lookback_period \<noteq> []"
  shows "\<exists>u. calculate_probability rnd df lookback_period
               = Inr (Fin u, Fin (rnd (100 - u)), signals_of rnd (recent_rows df lookback_period))
             \<and> final_score_of rnd (signals_of rnd (recent_rows df lookback_period))
                 (volume_weights_of rnd (recent_rows df lookback_period)) = Fin u
             \<and> 20 \<le> u \<and> u \<le> 80"
proof -
  let ?recent = "recent_rows df lookback_period"
  from volume_weight_rounded_pos [OF assms]
  obtain v where ne: "volume_weights_of rnd ?recent \<noteq> []"
    and v: "np_mean rnd (volume_weights_of rnd ?recent) = Fin v" "0 < v"
    by blast
  define r m s a ob where "r = rsi_signal (RSI (last ?recent))"
    and "m = macd_signal (MACD (last ?recent)) (MACD_Signal (last ?recent))
                   (MACD_Hist (last ?recent))
                   (if length ?recent > 1 then MACD_Hist (?recent ! (length ?recent - 2))
                    else MACD_Hist (last ?recent))"
    and "s = stoch_signal (Stoch_K (last ?recent)) (Stoch_D (last ?recent))"
    and "a = ma_signal (Fin (Close (last ?recent))) (MA_5 (last ?recent)) (MA_20 (last ?recent))"
    and "ob = obv_signal rnd ?recent"
  have sig: "signals_of rnd ?recent
               = [(''RSI'', r), (''MACD'', m), (''Stochastic'', s), (''MA'', a), (''OBV'', ob)]"
    unfolding r_def m_def s_def a_def ob_def by (rule signals_of_eq)
  have vals: "r \<in> {20, 35, 45, 50, 55, 65, 80}" "m \<in> {25, 40, 50, 60, 75}"
    "s \<in> {25, 40, 50, 60, 75}" "a \<in> {30, 40, 50, 60, 70}" "ob \<in> {30, 45, 50, 55, 70}"
    unfolding r_def m_def s_def a_def ob_def by (rule signal_values)+
  have r: "20 \<le> r" "r \<le> 80" using vals(1) by auto
  have m: "25 \<le> m" "m \<le> 75" using vals(2) by auto
  have s: "25 \<le> s" "s \<le> 75" using vals(3) by auto
  have a: "30 \<le> a" "a \<le> 70" using vals(4) by auto
  have ob: "30 \<le> ob" "ob \<le> 70" using vals(5) by auto
  from final_score_of_rounded [OF assms(1) ne v r m s a ob]
  obtain u where final: "final_score_of rnd (signals_of rnd ?recent) (volume_weights_of rnd ?recent)
                 = Fin u"
    and bounds: "20 \<le> u" "u \<le> 80"
    unfolding sig by blast
  have clamp: "py_max (Fin 0) (py_min (Fin 100) (Fin u)) = Fin u"
    using bounds by (simp add: py_min_def py_max_def fgt_def)
  have "calculate_probability rnd df lookback_period
          = Inr (Fin u, Fin (rnd (100 - u)), signals_of rnd ?recent)"
    using assms(2) unfolding calculate_probability_def Let_def final clamp
    by (simp add: rsub_def)
  with final bounds show ?thesis by blast
qed

lemma complement_rounded:
  assumes "rnd = exact \<or> rnd = binary64" and "0 \<le> u" and "u \<le> 100"
  shows "rnd (u + rnd (100 - u)) = 100" and "0 \<le> rnd (100 - u)" and "rnd (100 - u) \<le> 100"
  using assms binary64_complement [OF assms(2,3)] by (auto simp: exact_def)

lemma close_rounding_cases: "rnd = exact \<or> rnd = binary64 \<Longrightarrow> close_rounding rnd"
  using close_rounding_exact close_rounding_binary64 by blast


section \<open>Claims about the scorer\<close>

text \<open>
  Claim C1. For every frame with at least one row and every lookback period of at least 1,
  the scorer returns an up and a down probability that are numbers in \<open>[0, 100]\<close> and whose
  sum is exactly 100, both in exact arithmetic and in 64-bit arithmetic, where the sum is
  itself rounded.
\<close>

theorem probabilities_sum_to_100:
  assumes "df \<noteq> []" and "1 \<le> lookback_period" and "rnd = exact \<or> rnd = binary64"
  shows "\<exists>u d signals.
           calculate_probability rnd df lookback_period = Inr (Fin u, Fin d, signals)
           \<and> rnd (u + d) = 100 \<and> 0 \<le> u \<and> u \<le> 100 \<and> 0 \<le> d \<and> d \<le> 100"
proof -
  from assms(1,2) have ne: "recent_rows df lookback_period \<noteq> []" by (rule recent_rows_nonempty)
  from assms(3) have "close_rounding rnd" by (rule close_rounding_cases)
  from calculate_probability_rounded [OF this ne]
  obtain u where res: "calculate_probability rnd df lookback_period
      = Inr (Fin u, Fin (rnd (100 - u)), signals_of rnd (recent_rows df lookback_period))"
    and "20 \<le> u" and "u \<le> 80"
    by blast
  then have u: "0 \<le> u" "u \<le> 100" by simp_all
  note complement_rounded [OF assms(3) u]
  with res u show ?thesis by blast
qed

text \<open>
  Claim C10. Every sub-score the scorer assigns is one of 20, 25, \<open>\<dots>\<close>, 80, the final
  score lies in \<open>[20, 80]\<close>, and the up probability is the final score itself: the clamp
  to \<open>[0, 100]\<close> does not change it. This holds in exact and in 64-bit arithmetic.
\<close>

theorem sub_scores_and_probability_in_range:
  assumes "df \<noteq> []" and "1 \<le> lookback_period" and "rnd = exact \<or> rnd = binary64"
  shows "\<exists>u signals.
           calculate_probability rnd df lookback_period
             = Inr (Fin u, Fin (rnd (100 - u)), signals)
           \<and> (\<forall>(indicator, score) \<in> set signals.
                 score \<in> {20, 25, 30, 35, 40, 45, 50, 55, 60, 65, 70, 75, 80})
           \<and> final_score_of rnd signals
                (volume_weights_of rnd (recent_rows df lookback_period)) = Fin u
           \<and> 20 \<le> u \<and> u \<le> 80"
proof -
  let ?recent = "recent_rows df lookback_period"
  from assms(1,2) have ne: "?recent \<noteq> []" by (rule recent_rows_nonempty)
  from assms(3) have "close_rounding rnd" by (rule close_rounding_cases)
  from calculate_probability_rounded [OF this ne]
  obtain u where u: "calculate_probability rnd df lookback_period
      = Inr (Fin u, Fin (rnd (100 - u)), signals_of rnd ?recent)"
    "final_score_of rnd (signals_of rnd ?recent) (volume_weights_of rnd ?recent) = Fin u"
    "20 \<le> u" "u \<le> 80"
    by blast
  have "score \<in> {20, 25, 30, 35, 40, 45, 50, 55, 60, 65, 70, 75, 80}"
    if "(indicator, score) \<in> set (signals_of rnd ?recent)" for indicator score
  proof -
    from that consider "score = rsi_signal (RSI (last ?recent))"
      | "score = macd_signal (MACD (last ?recent)) (MACD_Signal (last ?recent))
                   (MACD_Hist (last ?recent))
                   (if length ?recent > 1 then MACD_Hist (?recent ! (length ?recent - 2))
                    else MACD_Hist (last ?recent))"
      | "score = stoch_signal (Stoch_K (last ?recent)) (Stoch_D (last ?recent))"
      | "score = ma_signal (Fin (Close (last ?recent))) (MA_5 (last ?recent))
                   (MA_20 (last ?recent))"
      | "score = obv_signal rnd ?recent"
      unfolding signals_of_eq by auto
    then show ?thesis
    proof cases
      case 1
      with signal_values(1) [of "RSI (last ?recent)"] show ?thesis by auto
    next
      case 2
      with signal_values(2) [of "MACD (last ?recent)" "MACD_Signal (last ?recent)"
          "MACD_Hist (last ?recent)"
          "if length ?recent > 1 then MACD_Hist (?recent ! (length ?recent - 2))
           else MACD_Hist (last ?recent)"]
      show ?thesis by auto
    next
      case 3
      with signal_values(3) [of "Stoch_K (last ?recent)" "Stoch_D (last ?recent)"]
      show ?thesis by auto
    next
      case 4
      with signal_values(4) [of "Fin (Close (last ?recent))" "MA_5 (last ?recent)"
          "MA_20 (last ?recent)"]
      show ?thesis by auto
    next
      case 5
      with signal_values(5) [of rnd ?recent] show ?thesis by auto
    qed
  qed
  then have "\<forall>(indicator, score) \<in> set (signals_of rnd ?recent).
               score \<in> {20, 25, 30, 35, 40, 45, 50, 55, 60, 65, 70, 75, 80}"
    by blast
  with u show ?thesis by blast
qed

text \<open>
  Claim C9, as the code has it. In exact arithmetic the volume weight cancels: for every
  frame and lookback period the scorer returns what the simplified scorer returns, which
  sums each sub-score times its base weight (both raise on a window without rows). With
  any rounding the two return the same signals.
\<close>

theorem volume_weighting_cancels_in_exact_arithmetic:
  "calculate_probability exact df lookback_period
     = simplified_probability exact df lookback_period
   \<and> map_sum id (snd \<circ> snd) (calculate_probability rnd df lookback_period)
     = map_sum id (snd \<circ> snd) (simplified_probability rnd df lookback_period)"
proof -
  let ?recent = "recent_rows df lookback_period"
  have "calculate_probability exact df lookback_period
          = simplified_probability exact df lookback_period"
  proof (cases "?recent = []")
    case True
    then show ?thesis by (simp add: calculate_probability_def simplified_probability_def)
  next
    case False
    from calculate_probability_exact [OF this]
    obtain u where "calculate_probability exact df lookback_period
        = Inr (Fin u, Fin (100 - u), signals_of exact ?recent)"
      and "simplified_score exact (signals_of exact ?recent) = Fin u"
      and "20 \<le> u" and "u \<le> 80"
      by blast
    with False show ?thesis
      by (simp add: simplified_probability_def py_min_def py_max_def fgt_def)
  qed
  moreover have "map_sum id (snd \<circ> snd) (calculate_probability rnd df lookback_period)
     = map_sum id (snd \<circ> snd) (simplified_probability rnd df lookback_period)"
    by (simp add: calculate_probability_def simplified_probability_def Let_def)
  ultimately show ?thesis by simp
qed

lemma obv_signal_undefined:
  assumes "\<forall>r \<in> set recent_df. OBV r = NaN"
  shows "obv_signal rnd recent_df = (if length recent_df > 1 then 55 else 50)"
proof (cases "length recent_df > 1")
  case True
  then have "last recent_df \<in> set recent_df" by (intro last_in_set) auto
  with assms have "OBV (last recent_df) = NaN" by blast
  then show ?thesis
    using True by (simp add: obv_signal_def Let_def rsub_def fsub_def fround_def fgt_def)
next
  case False
  then show ?thesis by (simp add: obv_signal_def)
qed

text \<open>
  Claim C4, as the code has it. On a frame whose indicator fields are undefined in every
  row, the RSI, MACD, stochastic and moving-average sub-scores are 50. The OBV sub-score
  is 50 only on a window of one row; on a longer window the comparisons with the undefined
  OBV change all fail and the last branch gives 55, so the up probability is 50 for a
  window of one row and 50.75 otherwise (in exact arithmetic).
\<close>

theorem all_indicators_undefined:
  assumes "df \<noteq> []" and "1 \<le> lookback_period"
    and "\<forall>r \<in> set df. RSI r = NaN \<and> MACD r = NaN \<and> MACD_Signal r = NaN \<and> MACD_Hist r = NaN
           \<and> Stoch_K r = NaN \<and> Stoch_D r = NaN \<and> MA_5 r = NaN \<and> MA_20 r = NaN \<and> OBV r = NaN"
  shows "calculate_probability exact df lookback_period =
           (if length df = 1 \<or> lookback_period = 1
            then Inr (Fin 50, Fin 50,
                   [(''RSI'', 50), (''MACD'', 50), (''Stochastic'', 50), (''MA'', 50),
                    (''OBV'', 50)])
            else Inr (Fin 50.75, Fin 49.25,
                   [(''RSI'', 50), (''MACD'', 50), (''Stochastic'', 50), (''MA'', 50),
                    (''OBV'', 55)]))"
proof -
  let ?recent = "recent_rows df lookback_period"
  have ne: "?recent \<noteq> []" using assms(1,2) by (rule recent_rows_nonempty)
  have sub: "set ?recent \<subseteq> set df" by (simp add: recent_rows_def set_tail)
  have len: "length ?recent = min (length df) (nat lookback_period)"
    using assms(2) by (rule length_recent_rows)
  have n: "1 \<le> length df" using assms(1) by (cases df) simp_all
  have k: "1 \<le> nat lookback_period" "nat lookback_period = 1 \<longleftrightarrow> lookback_period = 1"
    using assms(2) by auto
  have "1 < min (length df) (nat lookback_period)
          \<longleftrightarrow> \<not> (length df = 1 \<or> nat lookback_period = 1)"
    using n k(1) by arith
  then have one: "length ?recent > 1 \<longleftrightarrow> \<not> (length df = 1 \<or> lookback_period = 1)"
    unfolding len k(2) .
  from ne have "last ?recent \<in> set ?recent" by (rule last_in_set)
  with sub assms(3) have last:
    "RSI (last ?recent) = NaN" "MACD (last ?recent) = NaN" "MACD_Signal (last ?recent) = NaN"
    "Stoch_K (last ?recent) = NaN" "Stoch_D (last ?recent) = NaN"
    "MA_5 (last ?recent) = NaN" "MA_20 (last ?recent) = NaN"
    by blast+
  from sub assms(3) have "\<forall>r \<in> set ?recent. OBV r = NaN" by blast
  then have obv: "obv_signal exact ?recent = (if length ?recent > 1 then 55 else 50)"
    by (rule obv_signal_undefined)
  have sig: "signals_of exact ?recent
               = [(''RSI'', 50), (''MACD'', 50), (''Stochastic'', 50), (''MA'', 50),
                  (''OBV'', if length ?recent > 1 then 55 else 50)]"
    unfolding signals_of_eq obv last
    by (simp add: rsi_signal_def macd_signal_def stoch_signal_def ma_signal_def notna_def)
  from volume_weight_exact_bounds [OF ne]
  obtain v where vw: "volume_weights_of exact ?recent \<noteq> []"
    and v: "np_mean exact (volume_weights_of exact ?recent) = Fin v" "0.5 \<le> v"
    by blast
  then have "0 < v" by simp
  show ?thesis
  proof (cases "length df = 1 \<or> lookback_period = 1")
    case True
    with one have short: "\<not> length ?recent > 1" by simp
    have "calculate_probability exact df lookback_period
            = Inr (Fin 50, Fin 50,
                [(''RSI'', 50), (''MACD'', 50), (''Stochastic'', 50), (''MA'', 50),
                 (''OBV'', 50)])"
      using ne short
      by (simp add: calculate_probability_def Let_def sig
            final_score_of_exact [OF vw v(1) \<open>0 < v\<close>] py_min_def py_max_def fgt_def)
    with True show ?thesis by simp
  next
    case False
    with one have long: "length ?recent > 1" by simp
    have "calculate_probability exact df lookback_period
            = Inr (Fin 50.75, Fin 49.25,
                [(''RSI'', 50), (''MACD'', 50), (''Stochastic'', 50), (''MA'', 50),
                 (''OBV'', 55)])"
      using ne long
      by (simp add: calculate_probability_def Let_def sig
            final_score_of_exact [OF vw v(1) \<open>0 < v\<close>] py_min_def py_max_def fgt_def)
    with False show ?thesis by simp
  qed
qed

text \<open>Two rows with undefined indicators: the up probability is 50.75, not 50.\<close>

theorem all_indicators_undefined_counterexample:
  "calculate_probability exact [undefined_row 0 100 1000, undefined_row 1 101 1200] 20
     = Inr (Fin 50.75, Fin 49.25,
         [(''RSI'', 50), (''MACD'', 50), (''Stochastic'', 50), (''MA'', 50), (''OBV'', 55)])
   \<and> Fin 50.75 \<noteq> Fin 50"
  by code_simp

theorem all_indicators_undefined_witness:
  "[undefined_row 0 100 1000] \<noteq> [] \<and> (1::int) \<le> 20
   \<and> calculate_probability exact [undefined_row 0 100 1000] 20
       = Inr (Fin 50, Fin 50,
           [(''RSI'', 50), (''MACD'', 50), (''Stochastic'', 50), (''MA'', 50), (''OBV'', 50)])"
  using all_indicators_undefined [of "[undefined_row 0 100 1000]" 20]
  by simp

theorem probabilities_sum_to_100_witness:
  "[undefined_row 0 100 1000] \<noteq> [] \<and> (1::int) \<le> 20 \<and> (binary64 = exact \<or> binary64 = binary64)
   \<and> (\<exists>u d signals.
         calculate_probability binary64 [undefined_row 0 100 1000] 20
           = Inr (Fin u, Fin d, signals)
         \<and> binary64 (u + d) = 100 \<and> 0 \<le> u \<and> u \<le> 100 \<and> 0 \<le> d \<and> d \<le> 100)"
  using probabilities_sum_to_100 [of "[undefined_row 0 100 1000]" 20 binary64]
  by simp

theorem sub_scores_and_probability_in_range_witness:
  "[undefined_row 0 100 1000] \<noteq> [] \<and> (1::int) \<le> 20 \<and> (binary64 = exact \<or> binary64 = binary64)
   \<and> (\<exists>u signals.
         calculate_probability binary64 [undefined_row 0 100 1000] 20
           = Inr (Fin u, Fin (binary64 (100 - u)), signals)
         \<and> (\<forall>(indicator, score) \<in> set signals.
               score \<in> {20, 25, 30, 35, 40, 45, 50, 55, 60, 65, 70, 75, 80})
         \<and> 20 \<le> u \<and> u \<le> 80)"
proof -
  have h: "[undefined_row 0 100 1000] \<noteq> []" "(1::int) \<le> 20"
    "binary64 = exact \<or> binary64 = binary64" by simp_all
  from sub_scores_and_probability_in_range [OF h] h show ?thesis by blast
qed

section \<open>The scorer in 64-bit arithmetic\<close>

text \<open>
  Five bars with closes 100 to 104 and volumes 1000, 1000, 1000, 1000, 16000: the volume
  weight is the float nearest to 0.8, and in 64-bit arithmetic the scorer returns
  59.24999999999999 where the simplified scorer returns 59.25.
\<close>

lemma rounded_scorer_on_five_bars:
  "calculate_probability binary64
     (add_indicators [flat_bar 0 100 1000, flat_bar 1 101 1000, flat_bar 2 102 1000,
                      flat_bar 3 103 1000, flat_bar 4 104 16000]) 20
   = Inr (Fin (8338696185053183 / 2 ^ 47), Fin (5735052650479617 / 2 ^ 47),
       [(''RSI'', 50), (''MACD'', 75), (''Stochastic'', 50), (''MA'', 50), (''OBV'', 70)])"
  by code_simp

lemma rounded_simplified_scorer_on_five_bars:
  "simplified_probability binary64
     (add_indicators [flat_bar 0 100 1000, flat_bar 1 101 1000, flat_bar 2 102 1000,
                      flat_bar 3 103 1000, flat_bar 4 104 16000]) 20
   = Inr (Fin 59.25, Fin 40.75,
       [(''RSI'', 50), (''MACD'', 75), (''Stochastic'', 50), (''MA'', 50), (''OBV'', 70)])"
  by code_simp

lemma rounded_volume_weight_on_five_bars:
  "np_mean binary64 (volume_weights_of binary64 (recent_rows
     (add_indicators [flat_bar 0 100 1000, flat_bar 1 101 1000, flat_bar 2 102 1000,
                      flat_bar 3 103 1000, flat_bar 4 104 16000]) 20))
   = Fin (3602879701896397 / 2 ^ 52)"
  by code_simp

theorem volume_weighting_rounding_counterexample:
  "np_mean binary64 (volume_weights_of binary64 (recent_rows
     (add_indicators [flat_bar 0 100 1000, flat_bar 1 101 1000, flat_bar 2 102 1000,
                      flat_bar 3 103 1000, flat_bar 4 104 16000]) 20))
     = Fin (3602879701896397 / 2 ^ 52)
   \<and> calculate_probability binary64
       (add_indicators [flat_bar 0 100 1000, flat_bar 1 101 1000, flat_bar 2 102 1000,
                        flat_bar 3 103 1000, flat_bar 4 104 16000]) 20
     \<noteq> simplified_probability binary64
         (add_indicators [flat_bar 0 100 1000, flat_bar 1 101 1000, flat_bar 2 102 1000,
                          flat_bar 3 103 1000, flat_bar 4 104 16000]) 20"
  unfolding rounded_scorer_on_five_bars rounded_simplified_scorer_on_five_bars
    rounded_volume_weight_on_five_bars
  by simp

end
